theory Spec2Isabelle
  imports Complex_Main "HOL-Library.Sublist" "HOL-Library.AList"
begin

section \<open>JavaScript strings\<close>

text \<open>
  A JavaScript string is modelled as a \<open>string\<close>: a list of code units, here the code
  units below 256 (the Latin-1 range), and \<open>length\<close> is the \<open>.length\<close> of the source.
\<close>

text \<open>\<open>String.prototype.toLowerCase\<close> on the Latin-1 range: A..Z and the accented
  capitals 192..222 (without the multiplication sign 215) move up by 32.\<close>

definition toLowerChar :: "char \<Rightarrow> char" where
  "toLowerChar c =
     (let n = (of_char c :: nat)
      in if (65 \<le> n \<and> n \<le> 90) \<or> (192 \<le> n \<and> n \<le> 222 \<and> n \<noteq> 215)
         then char_of (n + 32) else c)"

definition toLowerCase :: "string \<Rightarrow> string" where
  "toLowerCase s = map toLowerChar s"

text \<open>\<open>s.includes(k)\<close>: does \<open>k\<close> start at some position of \<open>s\<close>?\<close>

fun includes_str :: "string \<Rightarrow> string \<Rightarrow> bool" where
  "includes_str [] k = (k = [])"
| "includes_str (c # cs) k = (prefix k (c # cs) \<or> includes_str cs k)"

section \<open>IntegrationService.analyzeRequestType\<close>

definition imageKeywords :: "string list" where
  "imageKeywords = [''generate image'', ''create image'', ''draw'', ''picture of'',
                    ''image of'', ''generate a'', ''create a'']"

definition kbKeywords :: "string list" where
  "kbKeywords = [''what is'', ''explain'', ''how does'', ''tell me about'',
                 ''definition of'', ''describe'']"

definition analyzeRequestType :: "string \<Rightarrow> string" where
  "analyzeRequestType message =
     (let lowerMessage = toLowerCase message
      in if list_ex (\<lambda>keyword. includes_str lowerMessage keyword) imageKeywords
         then ''image_generation''
         else if list_ex (\<lambda>keyword. includes_str lowerMessage keyword) kbKeywords
         then ''knowledge_base_query''
         else ''general_chat'')"

text \<open>The classifier as the specification words it: a trigger occurs in a text when the
  text is some prefix, the trigger, and some suffix.\<close>

definition occurs_in :: "string \<Rightarrow> string \<Rightarrow> bool" where
  "occurs_in k s = (\<exists>pre post. s = pre @ k @ post)"


section \<open>Thrown values\<close>

text \<open>What a \<open>throw\<close> carries: an \<open>Error\<close> with its message, or some other value. The
  catch blocks of the services read the message with
  \<open>error instanceof Error ? error.message : "Unknown error"\<close>.\<close>

datatype thrown = Error string | NonError

fun message_of :: "thrown \<Rightarrow> string" where
  "message_of (Error m) = m"
| "message_of NonError = ''Unknown error''"

section \<open>ModerationService\<close>

text \<open>One element of \<open>moderation.results\<close> as the moderation capability returns it: the
  objects \<open>categories\<close> and \<open>category_scores\<close> are association lists from the
  capability's category names. Scores are JavaScript numbers, idealised as reals.\<close>

record moderation_result =
  res_flagged :: bool
  res_categories :: "(string \<times> bool) list"
  res_category_scores :: "(string \<times> real) list"

text \<open>The outcome of \<open>openai.moderations.create\<close>: a thrown value, or the response's
  \<open>results\<close> field (\<open>None\<close> when it is missing).\<close>

type_synonym moderations_create = "string \<Rightarrow> thrown + moderation_result list option"

text \<open>\<open>ModerationResponse\<close> of the schema, without its random \<open>id\<close>.\<close>

record ModerationResponse =
  mr_content :: string
  mr_flagged :: bool
  mr_categories :: "(string \<times> bool) list"
  mr_categoryScores :: "(string \<times> real) list"
  mr_timestamp :: int
  mr_sessionId :: string
  mr_action :: string
  mr_riskLevel :: string

definition highSeverityCategories :: "string list" where
  "highSeverityCategories = [''hate/threatening'', ''harassment/threatening'',
     ''self-harm/intent'', ''self-harm/instructions'', ''sexual/minors'',
     ''violence/graphic'']"

definition determineAction :: "bool \<Rightarrow> (string \<times> bool) list \<Rightarrow> string" where
  "determineAction flagged categories =
     (if \<not> flagged then ''allow''
      else
        let hasHighSeverity =
              list_ex (\<lambda>(category, flagged). flagged \<and> category \<in> set highSeverityCategories)
                categories
        in if hasHighSeverity then ''block'' else ''warn'')"

text \<open>\<open>Math.max\<close> of no argument is \<open>-Infinity\<close>, which is below 0.3.\<close>

definition calculateRiskLevel :: "(string \<times> real) list \<Rightarrow> string" where
  "calculateRiskLevel categoryScores =
     (case map snd categoryScores of
        [] \<Rightarrow> ''low''
      | v # vs \<Rightarrow>
          let maxScore = fold max vs v
          in if maxScore < 0.3 then ''low''
             else if maxScore < 0.7 then ''medium''
             else ''high'')"

text \<open>The response's fields and the capability's category names, in the order of the
  object literal of \<open>moderateContent\<close>.\<close>

definition categoryFields :: "(string \<times> string) list" where
  "categoryFields =
     [(''hate'', ''hate''), (''hateThreatening'', ''hate/threatening''),
      (''harassment'', ''harassment''), (''harassmentThreatening'', ''harassment/threatening''),
      (''selfHarm'', ''self-harm''), (''selfHarmIntent'', ''self-harm/intent''),
      (''selfHarmInstructions'', ''self-harm/instructions''),
      (''sexual'', ''sexual''), (''sexualMinors'', ''sexual/minors''),
      (''violence'', ''violence''), (''violenceGraphic'', ''violence/graphic'')]"

text \<open>\<open>obj[key] || dflt\<close> on an object read as an association list.\<close>

definition get_or :: "(string \<times> 'a) list \<Rightarrow> string \<Rightarrow> 'a \<Rightarrow> 'a" where
  "get_or obj key dflt = (case map_of obj key of Some v \<Rightarrow> v | None \<Rightarrow> dflt)"

type_synonym moderation_history = "(string \<times> ModerationResponse list) list"

text \<open>\<open>moderateContent\<close>: the \<open>try\<close> block ends at the first throw, and the \<open>catch\<close>
  wraps the message. The history is written only when no throw happened.\<close>

definition moderateContent ::
  "moderations_create \<Rightarrow> int \<Rightarrow> moderation_history \<Rightarrow> string \<Rightarrow> string
     \<Rightarrow> (thrown + ModerationResponse) \<times> moderation_history" where
  "moderateContent api now moderationHistory content sessionId =
     (case api content of
        Inl e \<Rightarrow> (Inl (Error (''Content moderation failed: '' @ message_of e)), moderationHistory)
      | Inr None \<Rightarrow>
          (Inl (Error (''Content moderation failed: '' @ ''No moderation results returned'')),
           moderationHistory)
      | Inr (Some []) \<Rightarrow>
          (Inl (Error (''Content moderation failed: '' @ ''No moderation results returned'')),
           moderationHistory)
      | Inr (Some (result # _)) \<Rightarrow>
          let moderationResponse = \<lparr>
                mr_content = content,
                mr_flagged = res_flagged result,
                mr_categories =
                  map (\<lambda>(field, name). (field, get_or (res_categories result) name False))
                    categoryFields,
                mr_categoryScores =
                  map (\<lambda>(field, name). (field, get_or (res_category_scores result) name 0))
                    categoryFields,
                mr_timestamp = now,
                mr_sessionId = sessionId,
                mr_action = determineAction (res_flagged result) (res_categories result),
                mr_riskLevel = calculateRiskLevel (res_category_scores result) \<rparr>;
              history = get_or moderationHistory sessionId []
          in (Inr moderationResponse,
              AList.update sessionId (history @ [moderationResponse]) moderationHistory))"

definition generateSafeResponse :: "ModerationResponse \<Rightarrow> string" where
  "generateSafeResponse moderationResult =
     (let categories = (\<lambda>field. get_or (mr_categories moderationResult) field False);
          flaggedCategories = map fst (filter snd (mr_categories moderationResult))
      in if flaggedCategories = []
         then ''I apologize, but I couldn't process your request. Please try rephrasing your message.''
         else if categories ''hate'' \<or> categories ''hateThreatening''
         then ''I can't respond to content that contains hate speech or discriminatory language. Please keep our conversation respectful and inclusive.''
         else if categories ''harassment'' \<or> categories ''harassmentThreatening''
         then ''I'm designed to have helpful and respectful conversations. Please avoid content that could be considered harassing or threatening.''
         else if categories ''violence'' \<or> categories ''violenceGraphic''
         then ''I cannot engage with content that involves violence or graphic descriptions. Let's focus on constructive and positive topics instead.''
         else if categories ''sexual'' \<or> categories ''sexualMinors''
         then ''I'm not able to discuss sexual content. Please keep our conversation appropriate and professional.''
         else if categories ''selfHarm'' \<or> categories ''selfHarmIntent''
                 \<or> categories ''selfHarmInstructions''
         then ''I'm concerned about the content of your message. If you're struggling with difficult thoughts, please consider reaching out to a mental health professional or crisis helpline. I'm here to help with other topics in a positive way.''
         else ''I'm not able to respond to that type of content. Please rephrase your message and I'll be happy to help with your question or request.'')"

text \<open>\<open>isContentSafe\<close>: the \<open>catch\<close> answers \<open>false\<close>.\<close>

definition isContentSafe ::
  "moderations_create \<Rightarrow> int \<Rightarrow> moderation_history \<Rightarrow> string \<Rightarrow> string
     \<Rightarrow> bool \<times> moderation_history" where
  "isContentSafe api now moderationHistory content sessionId =
     (case moderateContent api now moderationHistory content sessionId of
        (Inr moderationResult, h) \<Rightarrow> (\<not> mr_flagged moderationResult, h)
      | (Inl _, h) \<Rightarrow> (False, h))"



section \<open>EmbeddingService\<close>

subsection \<open>String and array primitives used by the chunker\<close>

text \<open>White space of \<open>String.prototype.trim\<close> in the Latin-1 range: tab, line feed,
  vertical tab, form feed, carriage return, space and no-break space.\<close>

definition isSpace :: "char \<Rightarrow> bool" where
  "isSpace c = ((of_char c :: nat) \<in> {9, 10, 11, 12, 13, 32, 160})"

definition trim :: "string \<Rightarrow> string" where
  "trim s = rev (dropWhile isSpace (rev (dropWhile isSpace s)))"

definition isTerminator :: "char \<Rightarrow> bool" where
  "isTerminator c = (c = CHR ''.'' \<or> c = CHR ''!'' \<or> c = CHR ''?'')"

text \<open>\<open>text.split(/[.!?]+/)\<close>: the pieces between the maximal runs of terminators; a
  run at the start or at the end leaves an empty piece there, and the empty text gives one
  empty piece.\<close>

function split_terminators :: "string \<Rightarrow> string list" where
  "split_terminators [] = [[]]"
| "split_terminators (c # cs) =
     (if isTerminator c then [] # split_terminators (dropWhile isTerminator cs)
      else (case split_terminators cs of
              [] \<Rightarrow> [[c]]
            | p # ps \<Rightarrow> (c # p) # ps))"
  by pat_completeness auto
termination
  by (relation "measure length") (auto simp: le_imp_less_Suc length_dropWhile_le)

text \<open>\<open>s.split(" ")\<close>.\<close>

fun split_on :: "char \<Rightarrow> string \<Rightarrow> string list" where
  "split_on sep [] = [[]]"
| "split_on sep (c # cs) =
     (if c = sep then [] # split_on sep cs
      else (case split_on sep cs of
              [] \<Rightarrow> [[c]]
            | p # ps \<Rightarrow> (c # p) # ps))"

text \<open>\<open>words.join(sep)\<close>.\<close>

fun join :: "string \<Rightarrow> string list \<Rightarrow> string" where
  "join sep [] = []"
| "join sep [w] = w"
| "join sep (w # ws) = w @ sep @ join sep ws"

text \<open>\<open>xs.slice(start)\<close> and \<open>xs.slice(0, end)\<close>: a negative index counts from the
  end, and both are clamped to the array.\<close>

definition slice_from :: "int \<Rightarrow> 'a list \<Rightarrow> 'a list" where
  "slice_from start xs =
     (let len = int (length xs);
          k = (if start < 0 then max (len + start) 0 else min start len)
      in drop (nat k) xs)"

definition slice_to :: "int \<Rightarrow> 'a list \<Rightarrow> 'a list" where
  "slice_to end xs =
     (let len = int (length xs);
          k = (if end < 0 then max (len + end) 0 else min end len)
      in take (nat k) xs)"

subsection \<open>splitTextIntoChunks\<close>

text \<open>One round of the \<open>for\<close> loop over the sentences; the state is \<open>chunks\<close> and
  \<open>currentChunk\<close>. The sizes are integers.\<close>

definition chunk_step :: "int \<Rightarrow> int \<Rightarrow> string \<Rightarrow> string list \<times> string \<Rightarrow> string list \<times> string" where
  "chunk_step maxChunkSize overlapSize sentence st =
     (case st of (chunks, currentChunk) \<Rightarrow>
        let trimmedSentence = trim sentence
        in if int (length currentChunk) + int (length trimmedSentence) > maxChunkSize
              \<and> length currentChunk > 0
           then
             let words = split_on CHR '' '' currentChunk;
                 overlapWords = slice_from (- (overlapSize div 5)) words
             in (chunks @ [trim currentChunk],
                 join '' '' overlapWords @ '' '' @ trimmedSentence)
           else (chunks,
                 currentChunk @ (if currentChunk \<noteq> [] then '' '' else []) @ trimmedSentence))"

definition splitTextIntoChunks :: "string \<Rightarrow> int \<Rightarrow> int \<Rightarrow> string list" where
  "splitTextIntoChunks text maxChunkSize overlapSize =
     (let sentences = filter (\<lambda>s. length (trim s) > 0) (split_terminators text)
      in case fold (chunk_step maxChunkSize overlapSize) sentences ([], []) of
           (chunks, currentChunk) \<Rightarrow>
             if length (trim currentChunk) > 0 then chunks @ [trim currentChunk] else chunks)"

text \<open>The sentences the loop appends: the non-blank pieces, trimmed.\<close>

definition sentences_of :: "string \<Rightarrow> string list" where
  "sentences_of text = map trim (filter (\<lambda>s. length (trim s) > 0) (split_terminators text))"


subsection \<open>The shape of the chunker's output\<close>

text \<open>A text is solid when it is not empty and neither starts nor ends with white
  space, as every trimmed sentence is.\<close>

definition solid :: "string \<Rightarrow> bool" where
  "solid x = (x \<noteq> [] \<and> \<not> isSpace (hd x) \<and> \<not> isSpace (last x))"

text \<open>A chunk list is laid out by a list of pairs: an overlap prefix and the group of
  sentences the chunk adds, joined by single spaces.\<close>

definition layout :: "(string \<times> string list) list \<Rightarrow> string list" where
  "layout pgs = map (\<lambda>(pre, grp). pre @ join '' '' grp) pgs"

text \<open>The loop invariant: the emitted chunks are laid out by \<open>pgs\<close>, the buffer holds a
  prefix and the group \<open>grp\<close>, and the groups in order are the sentences read so far.\<close>

definition chunk_inv :: "string list \<Rightarrow> string list \<times> string \<Rightarrow> bool" where
  "chunk_inv seen st =
     (\<exists>pgs pre grp.
        st = (layout pgs, pre @ join '' '' grp)
        \<and> (\<forall>pg \<in> set pgs. snd pg \<noteq> [])
        \<and> (grp = [] \<longrightarrow> pre = [])
        \<and> (\<forall>x \<in> set grp. solid x)
        \<and> concat (map snd pgs) @ grp = seen)"

subsection \<open>calculateCosineSimilarity\<close>

text \<open>JavaScript numbers are idealised as reals: the sums, the square roots and the
  quotient are exact. The loop runs over the indices of two arrays of equal length.\<close>

definition calculateCosineSimilarity :: "real list \<Rightarrow> real list \<Rightarrow> thrown + real" where
  "calculateCosineSimilarity vectorA vectorB =
     (if length vectorA \<noteq> length vectorB
      then Inl (Error ''Vectors must have the same length for cosine similarity calculation'')
      else
        case fold (\<lambda>(a, b) (dotProduct, normA, normB).
                     (dotProduct + a * b, normA + a * a, normB + b * b))
               (zip vectorA vectorB) (0, 0, 0) of
          (dotProduct, normA2, normB2) \<Rightarrow>
            let normA = sqrt normA2; normB = sqrt normB2
            in if normA = 0 \<or> normB = 0 then Inr 0
               else Inr (dotProduct / (normA * normB)))"

text \<open>The quantities of the specification.\<close>

definition dot :: "real list \<Rightarrow> real list \<Rightarrow> real" where
  "dot a b = (\<Sum>(x, y) \<leftarrow> zip a b. x * y)"

definition norm2 :: "real list \<Rightarrow> real" where
  "norm2 a = sqrt (\<Sum>x \<leftarrow> a. x * x)"

subsection \<open>Embedding capability and generateEmbedding\<close>

text \<open>\<open>value || dflt\<close> on an optional string and on an optional number: a missing value,
  the empty string and 0 give the default.\<close>

definition str_or :: "string option \<Rightarrow> string \<Rightarrow> string" where
  "str_or v dflt = (case v of None \<Rightarrow> dflt | Some s \<Rightarrow> if s = [] then dflt else s)"

definition nat_or :: "nat option \<Rightarrow> nat \<Rightarrow> nat" where
  "nat_or v dflt = (case v of None \<Rightarrow> dflt | Some n \<Rightarrow> if n = 0 then dflt else n)"

text \<open>The outcome of \<open>openai.embeddings.create\<close> on an input, as the services read it:
  \<open>response.data[0].embedding\<close> and \<open>response.usage?.total_tokens\<close>, or the value thrown by
  the call or by that read.\<close>

type_synonym embeddings_create = "string \<Rightarrow> thrown + real list \<times> nat option"

record EmbeddingMetadata =
  md_filename :: string
  md_source :: string
  md_chunkIndex :: nat
  md_timestamp :: int
  md_tokenCount :: nat

text \<open>\<open>DocumentEmbedding\<close> of the schema, without its random \<open>id\<close>.\<close>

record DocumentEmbedding =
  de_text :: string
  de_embedding :: "real list"
  de_metadata :: EmbeddingMetadata

record EmbeddingRequest =
  rq_text :: string
  rq_filename :: "string option"
  rq_source :: "string option"
  rq_chunkIndex :: "nat option"

definition generateEmbedding ::
  "embeddings_create \<Rightarrow> int \<Rightarrow> EmbeddingRequest \<Rightarrow> thrown + DocumentEmbedding" where
  "generateEmbedding api now request =
     (case api (rq_text request) of
        Inl e \<Rightarrow> Inl (Error (''Embedding generation failed: '' @ message_of e))
      | Inr (embedding, total_tokens) \<Rightarrow>
          Inr \<lparr> de_text = rq_text request,
                de_embedding = embedding,
                de_metadata = \<lparr>
                  md_filename = str_or (rq_filename request) ''unknown'',
                  md_source = str_or (rq_source request) ''text_input'',
                  md_chunkIndex = nat_or (rq_chunkIndex request) 0,
                  md_timestamp = now,
                  md_tokenCount = nat_or total_tokens 0 \<rparr> \<rparr>)"

subsection \<open>generateMultipleEmbeddings\<close>

text \<open>\<open>Promise.all\<close>: all the values in order, or a rejection. Of several rejections
  the source keeps the one that happens first in time; the model keeps the first in
  order.\<close>

fun promise_all :: "(thrown + 'a) list \<Rightarrow> thrown + 'a list" where
  "promise_all [] = Inr []"
| "promise_all (Inl e # ps) = Inl e"
| "promise_all (Inr v # ps) =
     (case promise_all ps of Inl e \<Rightarrow> Inl e | Inr vs \<Rightarrow> Inr (v # vs))"

definition batchSize :: nat where
  "batchSize = 10"

text \<open>The \<open>for\<close> loop over the batches, from index \<open>i\<close> with the embeddings pushed so
  far. The pause between two batches is not modelled.\<close>

function embed_batches ::
  "embeddings_create \<Rightarrow> int \<Rightarrow> string option \<times> string option \<Rightarrow> string list \<Rightarrow> nat
     \<Rightarrow> DocumentEmbedding list \<Rightarrow> thrown + DocumentEmbedding list" where
  "embed_batches api now metadata texts i embeddings =
     (if i < length texts
      then
        let batch = take batchSize (drop i texts);
            batchPromises =
              map (\<lambda>(text, index).
                     generateEmbedding api now
                       \<lparr> rq_text = text, rq_filename = fst metadata,
                         rq_source = snd metadata, rq_chunkIndex = Some (i + index) \<rparr>)
                (zip batch [0..<length batch])
        in case promise_all batchPromises of
             Inl e \<Rightarrow> Inl e
           | Inr batchResults \<Rightarrow>
               embed_batches api now metadata texts (i + batchSize) (embeddings @ batchResults)
      else Inr embeddings)"
  by pat_completeness auto
termination
  by (relation "measure (\<lambda>(api, now, metadata, texts, i, embeddings). length texts - i)")
     (auto simp: batchSize_def)

declare embed_batches.simps [simp del]

definition generateMultipleEmbeddings ::
  "embeddings_create \<Rightarrow> int \<Rightarrow> string list \<Rightarrow> string option \<times> string option
     \<Rightarrow> thrown + DocumentEmbedding list" where
  "generateMultipleEmbeddings api now texts metadata =
     (case embed_batches api now metadata texts 0 [] of
        Inl e \<Rightarrow> Inl (Error (''Batch embedding generation failed: '' @ message_of e))
      | Inr embeddings \<Rightarrow> Inr embeddings)"

definition generateQueryEmbedding :: "embeddings_create \<Rightarrow> string \<Rightarrow> thrown + real list" where
  "generateQueryEmbedding api query =
     (case api query of
        Inl e \<Rightarrow> Inl (Error (''Query embedding generation failed: '' @ message_of e))
      | Inr (embedding, _) \<Rightarrow> Inr embedding)"

text \<open>What \<open>generateEmbedding\<close> makes of a chunk with index \<open>i\<close> when the capability
  answers: the chunk's text, the vector and the token count of the answer, and the
  metadata it was called with.\<close>

definition embeds_chunk ::
  "embeddings_create \<Rightarrow> int \<Rightarrow> string option \<times> string option \<Rightarrow> string \<Rightarrow> nat
     \<Rightarrow> DocumentEmbedding \<Rightarrow> bool" where
  "embeds_chunk api now metadata chunk i emb =
     (\<exists>vector tokens.
        api chunk = Inr (vector, tokens)
        \<and> emb = \<lparr> de_text = chunk, de_embedding = vector,
                  de_metadata = \<lparr>
                    md_filename = str_or (fst metadata) ''unknown'',
                    md_source = str_or (snd metadata) ''text_input'',
                    md_chunkIndex = i, md_timestamp = now,
                    md_tokenCount = nat_or tokens 0 \<rparr> \<rparr>)"

subsection \<open>findSimilarDocuments\<close>

text \<open>The scores of all documents (a throw of \<open>calculateCosineSimilarity\<close> leaves the
  \<open>map\<close>), the stable sort by descending similarity, and \<open>slice(0, topK)\<close>.\<close>

fun score_all ::
  "real list \<Rightarrow> DocumentEmbedding list \<Rightarrow> thrown + (DocumentEmbedding \<times> real) list" where
  "score_all queryEmbedding [] = Inr []"
| "score_all queryEmbedding (doc # docs) =
     (case calculateCosineSimilarity queryEmbedding (de_embedding doc) of
        Inl e \<Rightarrow> Inl e
      | Inr similarity \<Rightarrow>
          (case score_all queryEmbedding docs of
             Inl e \<Rightarrow> Inl e
           | Inr rest \<Rightarrow> Inr ((doc, similarity) # rest)))"

definition findSimilarDocuments ::
  "real list \<Rightarrow> DocumentEmbedding list \<Rightarrow> int
     \<Rightarrow> thrown + (DocumentEmbedding \<times> real) list" where
  "findSimilarDocuments queryEmbedding documentEmbeddings topK =
     (case score_all queryEmbedding documentEmbeddings of
        Inl e \<Rightarrow> Inl e
      | Inr documentsWithScores \<Rightarrow>
          Inr (slice_to topK (sort_key (\<lambda>(doc, similarity). - similarity) documentsWithScores)))"

section \<open>KnowledgeBaseService\<close>

record DocumentMetadata =
  dm_filename :: string
  dm_uploadDate :: int
  dm_chunkCount :: nat

record KnowledgeBaseService =
  documents :: "(string \<times> DocumentEmbedding list) list"
  documentMetadata :: "(string \<times> DocumentMetadata) list"

record AddDocumentResult =
  ar_documentId :: string
  ar_chunkCount :: nat
  ar_tokenCount :: nat

text \<open>Decimal digits of a number, for the template strings.\<close>

function string_of_nat :: "nat \<Rightarrow> string" where
  "string_of_nat n =
     (if n < 10 then [char_of (48 + n)]
      else string_of_nat (n div 10) @ [char_of (48 + n mod 10)])"
  by pat_completeness auto
termination
  by (relation "measure id") auto

declare string_of_nat.simps [simp del]

text \<open>\<open>generateDocumentId\<close>: the clock is \<open>now\<close> and \<open>random\<close> is the suffix drawn from
  \<open>Math.random\<close>; every character of the file name outside \<open>[a-zA-Z0-9.-]\<close> becomes an
  underscore.\<close>

definition cleanChar :: "char \<Rightarrow> char" where
  "cleanChar c =
     (let n = (of_char c :: nat)
      in if (97 \<le> n \<and> n \<le> 122) \<or> (65 \<le> n \<and> n \<le> 90) \<or> (48 \<le> n \<and> n \<le> 57)
            \<or> c = CHR ''.'' \<or> c = CHR ''-''
         then c else CHR ''_'')"

definition generateDocumentId :: "int \<Rightarrow> string \<Rightarrow> string \<Rightarrow> string" where
  "generateDocumentId now random filename =
     ''doc_'' @ string_of_nat (nat now) @ ''_'' @ map cleanChar filename @ ''_'' @ random"

text \<open>\<open>addDocument\<close>: both stores are written after the embeddings have arrived; a throw
  before that leaves the \<open>try\<close> block for the \<open>catch\<close>, which wraps the message.\<close>

definition addDocument ::
  "embeddings_create \<Rightarrow> int \<Rightarrow> string \<Rightarrow> KnowledgeBaseService \<Rightarrow> string \<Rightarrow> string
     \<Rightarrow> (thrown + AddDocumentResult) \<times> KnowledgeBaseService" where
  "addDocument api now random kb filename content =
     (let documentId = generateDocumentId now random filename;
          chunks = splitTextIntoChunks content 800 80
      in case generateMultipleEmbeddings api now chunks (Some filename, Some ''document_upload'') of
           Inl e \<Rightarrow> (Inl (Error (''Document processing failed: '' @ message_of e)), kb)
         | Inr embeddings \<Rightarrow>
             let kb1 = kb\<lparr> documents := AList.update documentId embeddings (documents kb) \<rparr>;
                 kb2 = kb1\<lparr> documentMetadata :=
                         AList.update documentId
                           \<lparr> dm_filename = filename, dm_uploadDate = now,
                             dm_chunkCount = length chunks \<rparr>
                           (documentMetadata kb1) \<rparr>;
                 totalTokens = fold (\<lambda>emb sum. sum + nat_or (Some (md_tokenCount (de_metadata emb))) 0)
                                 embeddings 0
             in (Inr \<lparr> ar_documentId = documentId, ar_chunkCount = length chunks,
                       ar_tokenCount = totalTokens \<rparr>,
                 kb2))"

definition removeDocument :: "KnowledgeBaseService \<Rightarrow> string \<Rightarrow> bool \<times> KnowledgeBaseService" where
  "removeDocument kb documentId =
     (let documentExists = (map_of (documents kb) documentId \<noteq> None)
      in if documentExists
         then (documentExists,
               kb\<lparr> documents := AList.delete documentId (documents kb),
                   documentMetadata := AList.delete documentId (documentMetadata kb) \<rparr>)
         else (documentExists, kb))"

subsection \<open>query\<close>

record TokenUsage =
  promptTokens :: nat
  completionTokens :: nat
  totalTokens :: nat

text \<open>The outcome of \<open>openai.chat.completions.create\<close> on a list of (role, content)
  messages, as the services read it: \<open>choices[0].message.content\<close> and the optional
  \<open>usage\<close> with its optional counts, or the value thrown by the call or by that read.\<close>

type_synonym chat_completions_create =
  "(string \<times> string) list \<Rightarrow> thrown + string option \<times> (nat option \<times> nat option \<times> nat option) option"

definition usage_of :: "(nat option \<times> nat option \<times> nat option) option \<Rightarrow> TokenUsage" where
  "usage_of usage =
     (case usage of
        None \<Rightarrow> \<lparr> promptTokens = 0, completionTokens = 0, totalTokens = 0 \<rparr>
      | Some (p, c, t) \<Rightarrow>
          \<lparr> promptTokens = nat_or p 0, completionTokens = nat_or c 0, totalTokens = nat_or t 0 \<rparr>)"

definition SYSTEM_PROMPTS_GENERAL :: string where
  "SYSTEM_PROMPTS_GENERAL = ''You are a helpful AI assistant that can answer questions, generate images, process audio, and search through uploaded documents. Always be concise but thorough in your responses.''"

definition SYSTEM_PROMPTS_KNOWLEDGE_BASE :: string where
  "SYSTEM_PROMPTS_KNOWLEDGE_BASE = ''You are an AI assistant with access to a knowledge base. Use the provided context to answer questions accurately. If the context doesn't contain relevant information, say so clearly.''"

record KnowledgeBaseQuery =
  q_question :: string
  q_sessionId :: string
  q_maxResults :: "int option"
  q_minSimilarity :: "real option"

record Source =
  src_filename :: string
  src_similarity :: real
  src_snippet :: string

record KnowledgeBaseResponse =
  kb_answer :: string
  kb_sources :: "Source list"
  kb_confidence :: real
  kb_hasContext :: bool
  kb_tokenUsage :: "TokenUsage option"

definition noDocumentsResponse :: KnowledgeBaseResponse where
  "noDocumentsResponse =
     \<lparr> kb_answer = ''I don't have any documents in my knowledge base yet. Please upload some documents first, and then I'll be able to answer questions based on their content.'',
       kb_sources = [], kb_confidence = 0, kb_hasContext = False, kb_tokenUsage = None \<rparr>"

definition noRelevantResponse :: KnowledgeBaseResponse where
  "noRelevantResponse =
     \<lparr> kb_answer = ''I couldn't find any relevant information in my knowledge base for your question. The documents I have don't seem to contain information related to your query.'',
       kb_sources = [], kb_confidence = 0, kb_hasContext = False, kb_tokenUsage = None \<rparr>"

text \<open>\<open>Math.round\<close> rounds to the nearest integer, a half upwards.\<close>

definition math_round :: "real \<Rightarrow> int" where
  "math_round x = \<lfloor>x + 1 / 2\<rfloor>"

definition kb_failed :: "thrown \<Rightarrow> thrown" where
  "kb_failed e = Error (''Knowledge base query failed: '' @ message_of e)"

definition query ::
  "embeddings_create \<Rightarrow> chat_completions_create \<Rightarrow> KnowledgeBaseService \<Rightarrow> KnowledgeBaseQuery
     \<Rightarrow> thrown + KnowledgeBaseResponse" where
  "query embedApi chatApi kb q =
     (case generateQueryEmbedding embedApi (q_question q) of
        Inl e \<Rightarrow> Inl (kb_failed e)
      | Inr queryEmbedding \<Rightarrow>
          let allEmbeddings = concat (map snd (documents kb))
          in if length allEmbeddings = 0 then Inr noDocumentsResponse
             else
               case findSimilarDocuments queryEmbedding allEmbeddings
                      (case q_maxResults q of None \<Rightarrow> 3 | Some n \<Rightarrow> if n = 0 then 3 else n) of
                 Inl e \<Rightarrow> Inl (kb_failed e)
               | Inr similarDocuments \<Rightarrow>
                   let minSimilarity =
                         (case q_minSimilarity q of
                            None \<Rightarrow> 0.7 | Some m \<Rightarrow> if m = 0 then 0.7 else m);
                       relevantDocuments =
                         filter (\<lambda>(doc, similarity). similarity \<ge> minSimilarity) similarDocuments
                   in if length relevantDocuments = 0 then Inr noRelevantResponse
                      else
                        let context =
                              join [CHR 0x0A, CHR 0x0A]
                                (map (\<lambda>((doc, similarity), index).
                                        ''[Source '' @ string_of_nat (index + 1) @ '']: '' @ de_text doc)
                                   (zip relevantDocuments [0..<length relevantDocuments]))
                        in case chatApi
                               [(''system'', SYSTEM_PROMPTS_KNOWLEDGE_BASE),
                                (''user'',
                                 ''Context from knowledge base:'' @ [CHR 0x0A] @ context
                                 @ [CHR 0x0A, CHR 0x0A] @ ''Question: '' @ q_question q
                                 @ [CHR 0x0A, CHR 0x0A]
                                 @ ''Please answer the question based on the provided context. If the context doesn't contain enough information to answer the question completely, say so clearly.'')] of
                             Inl e \<Rightarrow> Inl (kb_failed e)
                           | Inr (content, usage) \<Rightarrow>
                               let answer = str_or content ''I apologize, but I couldn't generate a response based on the available context.'';
                                   sources =
                                     map (\<lambda>(doc, similarity).
                                            \<lparr> src_filename = md_filename (de_metadata doc),
                                              src_similarity = similarity,
                                              src_snippet =
                                                take 200 (de_text doc)
                                                @ (if length (de_text doc) > 200 then ''...'' else []) \<rparr>)
                                       relevantDocuments;
                                   avgSimilarity =
                                     fold (\<lambda>(doc, similarity) sum. sum + similarity) relevantDocuments 0
                                     / real (length relevantDocuments);
                                   confidence = real_of_int (math_round (avgSimilarity * 100)) / 100
                               in Inr \<lparr> kb_answer = answer, kb_sources = sources,
                                         kb_confidence = confidence, kb_hasContext = True,
                                         kb_tokenUsage = Some (usage_of usage) \<rparr>)"


section \<open>ChatService\<close>

text \<open>\<open>ChatMessage\<close> of the schema, without its random \<open>id\<close>.\<close>

record ChatMessage =
  cm_role :: string
  cm_content :: string
  cm_timestamp :: int
  cm_sessionId :: string
  cm_tokenUsage :: "TokenUsage option"

type_synonym chat_history = "(string \<times> ChatMessage list) list"

definition formatMessagesForAPI :: "ChatMessage list \<Rightarrow> (string \<times> string) list" where
  "formatMessagesForAPI history =
     (''system'', SYSTEM_PROMPTS_GENERAL) # map (\<lambda>msg. (cm_role msg, cm_content msg)) history"

text \<open>\<open>sendMessage\<close>. \<open>getChatHistory\<close> hands out the stored array when the session has
  one, so the \<open>push\<close> of the user message reaches the store at once; a fresh array is
  stored only by the final \<open>set\<close>.\<close>

definition sendMessage ::
  "chat_completions_create \<Rightarrow> int \<Rightarrow> chat_history \<Rightarrow> string \<Rightarrow> string
     \<Rightarrow> (thrown + ChatMessage) \<times> chat_history" where
  "sendMessage api now chatHistory message sessionId =
     (let history = get_or chatHistory sessionId [];
          userMessage = \<lparr> cm_role = ''user'', cm_content = message, cm_timestamp = now,
                          cm_sessionId = sessionId, cm_tokenUsage = None \<rparr>;
          history1 = history @ [userMessage];
          chatHistory1 = (if map_of chatHistory sessionId \<noteq> None
                          then AList.update sessionId history1 chatHistory else chatHistory);
          messages = formatMessagesForAPI history1
      in case api messages of
           Inl e \<Rightarrow> (Inl (Error (''Chat completion failed: '' @ message_of e)), chatHistory1)
         | Inr (content, usage) \<Rightarrow>
             let assistantMessage =
                   \<lparr> cm_role = ''assistant'',
                     cm_content = str_or content ''I apologize, but I couldn't generate a response. Please try again.'',
                     cm_timestamp = now, cm_sessionId = sessionId,
                     cm_tokenUsage = Some (usage_of usage) \<rparr>
             in (Inr assistantMessage,
                 AList.update sessionId (history1 @ [assistantMessage]) chatHistory1))"

section \<open>IntegrationService\<close>

record ChatFeatures =
  chat :: bool
  knowledgeBase :: bool
  imageGeneration :: bool
  audioInput :: bool
  textToSpeech :: bool
  moderation :: bool

record SessionStatistics =
  st_sessionId :: string
  messagesCount :: nat
  imagesGenerated :: nat
  audioTranscriptions :: nat
  knowledgeBaseQueries :: nat
  moderationChecks :: nat
  moderationBlocked :: nat
  tokensUsed :: nat
  sessionDuration :: int
  startTime :: int
  lastActivity :: int

record IntegrationService =
  sessionFeatures :: "(string \<times> ChatFeatures) list"
  sessionStatistics :: "(string \<times> SessionStatistics) list"

definition configureSessionFeatures ::
  "IntegrationService \<Rightarrow> string \<Rightarrow> ChatFeatures \<Rightarrow> IntegrationService" where
  "configureSessionFeatures svc sessionId features =
     svc\<lparr> sessionFeatures := AList.update sessionId features (sessionFeatures svc) \<rparr>"

definition defaultFeatures :: ChatFeatures where
  "defaultFeatures = \<lparr> chat = True, knowledgeBase = True, imageGeneration = False,
                        audioInput = False, textToSpeech = False, moderation = True \<rparr>"

text \<open>\<open>getSessionFeatures\<close> returns the stored features or the default; it has no
  statement that writes, so the service it returns is the one it was given.\<close>

definition getSessionFeatures ::
  "IntegrationService \<Rightarrow> string \<Rightarrow> ChatFeatures \<times> IntegrationService" where
  "getSessionFeatures svc sessionId =
     (get_or (sessionFeatures svc) sessionId defaultFeatures, svc)"

definition defaultStatistics :: "string \<Rightarrow> int \<Rightarrow> SessionStatistics" where
  "defaultStatistics sessionId now =
     \<lparr> st_sessionId = sessionId, messagesCount = 0, imagesGenerated = 0,
       audioTranscriptions = 0, knowledgeBaseQueries = 0, moderationChecks = 0,
       moderationBlocked = 0, tokensUsed = 0, sessionDuration = 0,
       startTime = now, lastActivity = now \<rparr>"

text \<open>\<open>getSessionStatistics\<close>. When the session has statistics, \<open>stats\<close> is the stored
  object itself, and the assignment to \<open>stats.sessionDuration\<close> writes into it: the model
  puts the changed record back under its key. The default object is never stored.\<close>

definition getSessionStatistics ::
  "IntegrationService \<Rightarrow> int \<Rightarrow> string \<Rightarrow> SessionStatistics \<times> IntegrationService" where
  "getSessionStatistics svc now sessionId =
     (case map_of (sessionStatistics svc) sessionId of
        Some stored \<Rightarrow>
          let stats = stored\<lparr> sessionDuration := now - startTime stored \<rparr>
          in (stats,
              svc\<lparr> sessionStatistics := AList.update sessionId stats (sessionStatistics svc) \<rparr>)
      | None \<Rightarrow>
          let dflt = defaultStatistics sessionId now
          in (dflt\<lparr> sessionDuration := now - startTime dflt \<rparr>, svc))"

record SystemStatistics =
  totalSessions :: nat
  activeFeatures :: "(string \<times> nat) list"
  totalRequests :: nat
  averageRequestsPerSession :: nat

text \<open>\<open>getSystemStatistics\<close>; \<open>Math.round\<close> of the quotient of two counts is written
  with integer division.\<close>

definition getSystemStatistics :: "IntegrationService \<Rightarrow> SystemStatistics" where
  "getSystemStatistics svc =
     (let allStats = map snd (sessionStatistics svc);
          totalSessions = length allStats;
          totalRequests = fold (\<lambda>stat sum. sum + messagesCount stat) allStats 0;
          count = (\<lambda>feature. length (filter feature (map snd (sessionFeatures svc))))
      in \<lparr> totalSessions = totalSessions,
           activeFeatures =
             [(''chat'', count chat), (''knowledgeBase'', count knowledgeBase),
              (''imageGeneration'', count imageGeneration), (''audioInput'', count audioInput),
              (''textToSpeech'', count textToSpeech), (''moderation'', count moderation)],
           totalRequests = totalRequests,
           averageRequestsPerSession =
             (if totalSessions > 0
              then (2 * totalRequests + totalSessions) div (2 * totalSessions) else 0) \<rparr>)"

definition updateStatistics ::
  "IntegrationService \<Rightarrow> int \<Rightarrow> string \<Rightarrow> string \<Rightarrow> IntegrationService" where
  "updateStatistics svc now sessionId action =
     (let stats = get_or (sessionStatistics svc) sessionId (defaultStatistics sessionId now);
          stats1 =
            (if action = ''general_chat''
             then stats\<lparr> messagesCount := messagesCount stats + 1 \<rparr>
             else if action = ''image_generation''
             then stats\<lparr> imagesGenerated := imagesGenerated stats + 1,
                         messagesCount := messagesCount stats + 1 \<rparr>
             else if action = ''knowledge_base_query''
             then stats\<lparr> knowledgeBaseQueries := knowledgeBaseQueries stats + 1,
                         messagesCount := messagesCount stats + 1 \<rparr>
             else if action = ''audio_transcription''
             then stats\<lparr> audioTranscriptions := audioTranscriptions stats + 1 \<rparr>
             else if action = ''moderation_blocked''
             then stats\<lparr> moderationBlocked := moderationBlocked stats + 1 \<rparr>
             else stats);
          stats2 = stats1\<lparr> lastActivity := now \<rparr>
      in svc\<lparr> sessionStatistics := AList.update sessionId stats2 (sessionStatistics svc) \<rparr>)"

subsection \<open>processRequest\<close>

text \<open>The image and speech services are taken at their boundary. \<open>cap_image\<close> is the
  private method \<open>handleImageGeneration\<close> as a function of the request's message (it
  derives the prompt from the message and calls \<open>imageService.generateImage\<close>);
  \<open>cap_tts\<close> is \<open>audioService.textToSpeech\<close> on a text and a voice. Their results are
  kept as the URL of the descriptor.\<close>

record capabilities =
  cap_moderations :: moderations_create
  cap_chat :: chat_completions_create
  cap_embeddings :: embeddings_create
  cap_image :: "string \<Rightarrow> thrown + string"
  cap_tts :: "string \<Rightarrow> string \<Rightarrow> thrown + string"

text \<open>The singletons the request runs on.\<close>

record services =
  svc_integration :: IntegrationService
  svc_chat :: chat_history
  svc_moderation :: moderation_history
  svc_knowledgeBase :: KnowledgeBaseService

record IntegratedChatRequest =
  req_message :: string
  req_sessionId :: string
  req_enableTTS :: "bool option"
  req_ttsVoice :: "string option"

record IntegratedChatResponse =
  ir_sessionId :: string
  ir_timestamp :: int
  ir_features :: ChatFeatures
  ir_requestType :: "string option"
  ir_chat :: "ChatMessage option"
  ir_knowledgeBase :: "KnowledgeBaseResponse option"
  ir_image :: "string option"
  ir_audio :: "string option"
  ir_moderation :: "ModerationResponse option"
  ir_error :: "string option"

definition assistant_message :: "string \<Rightarrow> int \<Rightarrow> string \<Rightarrow> ChatMessage" where
  "assistant_message content now sessionId =
     \<lparr> cm_role = ''assistant'', cm_content = content, cm_timestamp = now,
       cm_sessionId = sessionId, cm_tokenUsage = None \<rparr>"

definition imageDisabledMessage :: string where
  "imageDisabledMessage = ''Image generation is currently disabled. Please enable it in the features panel to generate images.''"

definition kbDisabledMessage :: string where
  "kbDisabledMessage = ''Knowledge base queries are currently disabled. Please enable the knowledge base feature or upload some documents first.''"

text \<open>A call of \<open>chatService.sendMessage\<close> from the orchestrator, whose reply becomes
  \<open>response.chat\<close>.\<close>

definition chat_into ::
  "capabilities \<Rightarrow> int \<Rightarrow> services \<Rightarrow> string \<Rightarrow> string \<Rightarrow> IntegratedChatResponse
     \<Rightarrow> (thrown + IntegratedChatResponse) \<times> services" where
  "chat_into caps now sv message sessionId response =
     (case sendMessage (cap_chat caps) now (svc_chat sv) message sessionId of
        (Inl e, h) \<Rightarrow> (Inl e, sv\<lparr> svc_chat := h \<rparr>)
      | (Inr reply, h) \<Rightarrow> (Inr (response\<lparr> ir_chat := Some reply \<rparr>), sv\<lparr> svc_chat := h \<rparr>))"

text \<open>Step 3, the \<open>switch\<close> on the request type.\<close>

definition dispatch ::
  "capabilities \<Rightarrow> int \<Rightarrow> services \<Rightarrow> IntegratedChatRequest \<Rightarrow> ChatFeatures \<Rightarrow> string
     \<Rightarrow> IntegratedChatResponse \<Rightarrow> (thrown + IntegratedChatResponse) \<times> services" where
  "dispatch caps now sv request features requestType response =
     (if requestType = ''image_generation''
      then
        if imageGeneration features
        then (case cap_image caps (req_message request) of
                Inl e \<Rightarrow> (Inl e, sv)
              | Inr generated \<Rightarrow>
                  (Inr (response\<lparr>
                     ir_image := Some generated,
                     ir_chat := Some (assistant_message
                       (''I've generated an image based on your prompt: '' @ [CHR 0x22]
                        @ req_message request @ [CHR 0x22]
                        @ ''. The image should appear above this message.'')
                       now (req_sessionId request)) \<rparr>),
                   sv))
        else chat_into caps now sv imageDisabledMessage (req_sessionId request) response
      else if requestType = ''knowledge_base_query''
      then
        if knowledgeBase features
        then (case query (cap_embeddings caps) (cap_chat caps) (svc_knowledgeBase sv)
                     \<lparr> q_question = req_message request, q_sessionId = req_sessionId request,
                       q_maxResults = Some 3, q_minSimilarity = Some 0.7 \<rparr> of
                Inl e \<Rightarrow> (Inl e, sv)
              | Inr kbResponse \<Rightarrow>
                  (Inr (response\<lparr>
                     ir_knowledgeBase := Some kbResponse,
                     ir_chat := Some (assistant_message (kb_answer kbResponse) now
                                        (req_sessionId request)) \<rparr>),
                   sv))
        else chat_into caps now sv kbDisabledMessage (req_sessionId request) response
      else chat_into caps now sv (req_message request) (req_sessionId request) response)"

text \<open>Step 4: speech, only when the feature is on, the request asks for it and there is
  a chat reply; a throw of the speech service is swallowed.\<close>

definition speech ::
  "capabilities \<Rightarrow> IntegratedChatRequest \<Rightarrow> ChatFeatures \<Rightarrow> IntegratedChatResponse
     \<Rightarrow> IntegratedChatResponse" where
  "speech caps request features response =
     (case ir_chat response of
        Some reply \<Rightarrow>
          if textToSpeech features \<and> req_enableTTS request = Some True
          then (case cap_tts caps (cm_content reply) (str_or (req_ttsVoice request) ''alloy'') of
                  Inl e \<Rightarrow> response
                | Inr audio \<Rightarrow> response\<lparr> ir_audio := Some audio \<rparr>)
          else response
      | None \<Rightarrow> response)"

text \<open>Steps 2 to 5, after the screening.\<close>

definition route ::
  "capabilities \<Rightarrow> int \<Rightarrow> services \<Rightarrow> IntegratedChatRequest \<Rightarrow> ChatFeatures
     \<Rightarrow> IntegratedChatResponse \<Rightarrow> (thrown + IntegratedChatResponse) \<times> services" where
  "route caps now sv request features response =
     (let requestType = analyzeRequestType (req_message request);
          response1 = response\<lparr> ir_requestType := Some requestType \<rparr>
      in case dispatch caps now sv request features requestType response1 of
           (Inl e, sv1) \<Rightarrow> (Inl e, sv1)
         | (Inr response2, sv1) \<Rightarrow>
             (Inr (speech caps request features response2),
              sv1\<lparr> svc_integration :=
                     updateStatistics (svc_integration sv1) now (req_sessionId request) requestType \<rparr>))"

text \<open>The body of the \<open>try\<close> block.\<close>

definition processRequest_try ::
  "capabilities \<Rightarrow> int \<Rightarrow> services \<Rightarrow> IntegratedChatRequest
     \<Rightarrow> (thrown + IntegratedChatResponse) \<times> services" where
  "processRequest_try caps now sv request =
     (let features = fst (getSessionFeatures (svc_integration sv) (req_sessionId request));
          response = \<lparr> ir_sessionId = req_sessionId request, ir_timestamp = now,
                       ir_features = features, ir_requestType = None, ir_chat = None,
                       ir_knowledgeBase = None, ir_image = None, ir_audio = None,
                       ir_moderation = None, ir_error = None \<rparr>
      in if moderation features
         then
           case moderateContent (cap_moderations caps) now (svc_moderation sv)
                  (req_message request) (req_sessionId request) of
             (Inl e, h) \<Rightarrow> (Inl e, sv\<lparr> svc_moderation := h \<rparr>)
           | (Inr moderationResult, h) \<Rightarrow>
               let sv1 = sv\<lparr> svc_moderation := h \<rparr>;
                   response1 = response\<lparr> ir_moderation := Some moderationResult \<rparr>
               in if mr_flagged moderationResult
                  then (Inr (response1\<lparr>
                          ir_chat := Some (assistant_message (generateSafeResponse moderationResult)
                                             now (req_sessionId request)) \<rparr>),
                        sv1\<lparr> svc_integration :=
                               updateStatistics (svc_integration sv1) now (req_sessionId request)
                                 ''moderation_blocked'' \<rparr>)
                  else route caps now sv1 request features response1
         else route caps now sv request features response)"

text \<open>\<open>processRequest\<close>: the \<open>catch\<close> turns a throw into the apology response.\<close>

definition processRequest ::
  "capabilities \<Rightarrow> int \<Rightarrow> services \<Rightarrow> IntegratedChatRequest
     \<Rightarrow> IntegratedChatResponse \<times> services" where
  "processRequest caps now sv request =
     (case processRequest_try caps now sv request of
        (Inr response, sv1) \<Rightarrow> (response, sv1)
      | (Inl e, sv1) \<Rightarrow>
          (\<lparr> ir_sessionId = req_sessionId request, ir_timestamp = now,
             ir_features = fst (getSessionFeatures (svc_integration sv1) (req_sessionId request)),
             ir_requestType = None,
             ir_chat = Some (assistant_message
               (''I apologize, but I encountered an error while processing your request: ''
                @ message_of e @ ''. Please try again.'')
               now (req_sessionId request)),
             ir_knowledgeBase = None, ir_image = None, ir_audio = None,
             ir_moderation = None, ir_error = Some (message_of e) \<rparr>,
           sv1))"


section \<open>Example capabilities and inputs\<close>

definition ex_result :: moderation_result where
  "ex_result = \<lparr> res_flagged = True,
       res_categories = [(''hate'', True), (''violence'', False), (''violence/graphic'', True)],
       res_category_scores = [(''hate'', 0.2), (''violence'', 0.1), (''violence/graphic'', 0.25)] \<rparr>"

definition ex_moderation_api :: moderations_create where
  "ex_moderation_api content = Inr (Some [ex_result])"

definition ex_response :: ModerationResponse where
  "ex_response = \<lparr> mr_content = ''text'', mr_flagged = True,
       mr_categories =
         [(''hate'', True), (''hateThreatening'', False), (''harassment'', False),
          (''harassmentThreatening'', False), (''selfHarm'', False), (''selfHarmIntent'', False),
          (''selfHarmInstructions'', False), (''sexual'', False), (''sexualMinors'', False),
          (''violence'', False), (''violenceGraphic'', True)],
       mr_categoryScores =
         [(''hate'', 0.2), (''hateThreatening'', 0), (''harassment'', 0),
          (''harassmentThreatening'', 0), (''selfHarm'', 0), (''selfHarmIntent'', 0),
          (''selfHarmInstructions'', 0), (''sexual'', 0), (''sexualMinors'', 0),
          (''violence'', 0.1), (''violenceGraphic'', 0.25)],
       mr_timestamp = 0, mr_sessionId = ''s1'', mr_action = ''block'', mr_riskLevel = ''low'' \<rparr>"

definition failing_moderation_api :: moderations_create where
  "failing_moderation_api content = Inl (Error ''connection refused'')"

definition safe_moderation_api :: moderations_create where
  "safe_moderation_api content =
     Inr (Some [\<lparr> res_flagged = False, res_categories = [(''hate'', False)],
                  res_category_scores = [(''hate'', 0.01)] \<rparr>])"

definition ex_text :: string where
  "ex_text = ''Hello world. This is  a test! Is it? Yes.''"

definition empty_integration :: IntegrationService where
  "empty_integration = \<lparr> sessionFeatures = [], sessionStatistics = [] \<rparr>"

definition one_chat_integration :: IntegrationService where
  "one_chat_integration = updateStatistics empty_integration 0 ''s1'' ''general_chat''"


definition ex_caps :: capabilities where
  "ex_caps = \<lparr> cap_moderations = safe_moderation_api,
               cap_chat = (\<lambda>messages. Inr (Some ''ok'', None)),
               cap_embeddings = (\<lambda>t. Inr ([1, 0], Some 3)),
               cap_image = (\<lambda>m. Inr ''http://image''),
               cap_tts = (\<lambda>t v. Inr ''http://audio'') \<rparr>"

definition empty_services :: services where
  "empty_services = \<lparr> svc_integration = empty_integration,
     svc_chat = [], svc_moderation = [],
     svc_knowledgeBase = \<lparr> documents = [], documentMetadata = [] \<rparr> \<rparr>"

definition kb_off_services :: services where
  "kb_off_services = empty_services\<lparr> svc_integration :=
      configureSessionFeatures empty_integration ''s1''
        (defaultFeatures\<lparr> knowledgeBase := False \<rparr>) \<rparr>"

definition ex_request :: IntegratedChatRequest where
  "ex_request = \<lparr> req_message = ''What is an embedding?'', req_sessionId = ''s1'',
                   req_enableTTS = None, req_ttsVoice = None \<rparr>"


definition ok_embeddings_api :: embeddings_create where
  "ok_embeddings_api t = Inr ([1, 0], Some 3)"

definition failing_embeddings_api :: embeddings_create where
  "failing_embeddings_api t = Inl (Error ''connection refused'')"

definition empty_kb :: KnowledgeBaseService where
  "empty_kb = \<lparr> documents = [], documentMetadata = [] \<rparr>"

definition ex_query :: KnowledgeBaseQuery where
  "ex_query = \<lparr> q_question = ''What is an embedding?'', q_sessionId = ''s1'',
                 q_maxResults = None, q_minSimilarity = None \<rparr>"

definition ok_chat_api :: chat_completions_create where
  "ok_chat_api messages = Inr (Some ''ok'', None)"

definition extra_category_result :: moderation_result where
  "extra_category_result = \<lparr> res_flagged = False,
       res_categories = [(''hate'', False), (''illicit'', False)],
       res_category_scores = [(''hate'', 0.1), (''illicit'', 0.9)] \<rparr>"

definition extra_category_api :: moderations_create where
  "extra_category_api content = Inr (Some [extra_category_result])"

definition extra_category_response :: ModerationResponse where
  "extra_category_response = \<lparr> mr_content = ''text'', mr_flagged = False,
       mr_categories =
         [(''hate'', False), (''hateThreatening'', False), (''harassment'', False),
          (''harassmentThreatening'', False), (''selfHarm'', False), (''selfHarmIntent'', False),
          (''selfHarmInstructions'', False), (''sexual'', False), (''sexualMinors'', False),
          (''violence'', False), (''violenceGraphic'', False)],
       mr_categoryScores =
         [(''hate'', 0.1), (''hateThreatening'', 0), (''harassment'', 0),
          (''harassmentThreatening'', 0), (''selfHarm'', 0), (''selfHarmIntent'', 0),
          (''selfHarmInstructions'', 0), (''sexual'', 0), (''sexualMinors'', 0),
          (''violence'', 0), (''violenceGraphic'', 0)],
       mr_timestamp = 0, mr_sessionId = ''s1'', mr_action = ''allow'', mr_riskLevel = ''high'' \<rparr>"

section \<open>Properties\<close>

lemma includes_occurs: "includes_str s k = occurs_in k s"
proof (induction s)
  case Nil
  show ?case by (auto simp: occurs_in_def)
next
  case (Cons c cs)
  show ?case
  proof
    assume "includes_str (c # cs) k"
    then consider "prefix k (c # cs)" | "includes_str cs k" by auto
    then show "occurs_in k (c # cs)"
    proof cases
      case 1
      then obtain post where "c # cs = k @ post" by (auto simp: prefix_def)
      then have "c # cs = [] @ k @ post" by simp
      then show ?thesis unfolding occurs_in_def by blast
    next
      case 2
      with Cons obtain pre post where "cs = pre @ k @ post" by (auto simp: occurs_in_def)
      then have "c # cs = (c # pre) @ k @ post" by simp
      then show ?thesis unfolding occurs_in_def by blast
    qed
  next
    assume "occurs_in k (c # cs)"
    then obtain pre post where e: "c # cs = pre @ k @ post" by (auto simp: occurs_in_def)
    show "includes_str (c # cs) k"
    proof (cases pre)
      case Nil
      with e have "prefix k (c # cs)" by (simp add: prefix_def)
      then show ?thesis by simp
    next
      case (Cons p ps)
      with e have "cs = ps @ k @ post" by simp
      then have "occurs_in k cs" unfolding occurs_in_def by blast
      with Cons.IH show ?thesis by simp
    qed
  qed
qed

text \<open>
  C7. Intent classification is a case-insensitive substring match with fixed precedence:
  if an image trigger occurs in the lowercased message the result is image_generation;
  otherwise, if a knowledge-base trigger occurs, knowledge_base_query; otherwise
  general_chat. The three messages of the specification classify as it says.
\<close>

theorem analyzeRequestType_precedence:
  "analyzeRequestType message =
     (if \<exists>k \<in> {''generate image'', ''create image'', ''draw'', ''picture of'',
                 ''image of'', ''generate a'', ''create a''}.
           occurs_in k (toLowerCase message)
      then ''image_generation''
      else if \<exists>k \<in> {''what is'', ''explain'', ''how does'', ''tell me about'',
                      ''definition of'', ''describe''}.
                occurs_in k (toLowerCase message)
      then ''knowledge_base_query''
      else ''general_chat'')
   \<and> analyzeRequestType ''Generate image of a cat'' = ''image_generation''
   \<and> analyzeRequestType ''What is a cat'' = ''knowledge_base_query''
   \<and> analyzeRequestType ''Hello there'' = ''general_chat''"
proof -
  have gen: "analyzeRequestType message =
     (if \<exists>k \<in> {''generate image'', ''create image'', ''draw'', ''picture of'',
                 ''image of'', ''generate a'', ''create a''}.
           occurs_in k (toLowerCase message)
      then ''image_generation''
      else if \<exists>k \<in> {''what is'', ''explain'', ''how does'', ''tell me about'',
                      ''definition of'', ''describe''}.
                occurs_in k (toLowerCase message)
      then ''knowledge_base_query''
      else ''general_chat'')"
    unfolding analyzeRequestType_def Let_def list_ex_iff includes_occurs
      imageKeywords_def kbKeywords_def
    by simp
  have e1: "analyzeRequestType ''Generate image of a cat'' = ''image_generation''"
    by code_simp
  have e2: "analyzeRequestType ''What is a cat'' = ''knowledge_base_query''"
    by code_simp
  have e3: "analyzeRequestType ''Hello there'' = ''general_chat''"
    by code_simp
  from gen e1 e2 e3 show ?thesis by blast
qed

theorem analyzeRequestType_precedence_witness:
  "occurs_in ''draw'' (toLowerCase ''Draw a dog'')
   \<and> analyzeRequestType ''Draw a dog'' = ''image_generation''"
proof -
  have o: "occurs_in ''draw'' (toLowerCase ''Draw a dog'')"
    unfolding includes_occurs [symmetric] by code_simp
  then have ex: "\<exists>k \<in> {''generate image'', ''create image'', ''draw'', ''picture of'',
                 ''image of'', ''generate a'', ''create a''}.
           occurs_in k (toLowerCase ''Draw a dog'')"
    by blast
  have "analyzeRequestType ''Draw a dog'' = ''image_generation''"
    using conjunct1 [OF analyzeRequestType_precedence [of "''Draw a dog''"]] ex
    by (simp only: if_True)
  with o show ?thesis by blast
qed


subsection \<open>ModerationService\<close>

lemma isContentSafe_cases:
  "fst (isContentSafe api now h content sid) =
     (case api content of Inr (Some (r # rs)) \<Rightarrow> \<not> res_flagged r | _ \<Rightarrow> False)"
  by (simp add: isContentSafe_def moderateContent_def Let_def
      split: sum.splits option.splits list.splits)

text \<open>
  C5. If the moderation capability call errors, \<open>isContentSafe\<close> returns false (fail
  closed); it returns true only when a successful moderation check reports
  \<open>flagged = false\<close>.
\<close>

theorem isContentSafe_fail_closed:
  "(api content = Inl e \<longrightarrow> fst (isContentSafe api now h content sid) = False)
   \<and> (fst (isContentSafe api now h content sid) = True
        \<longleftrightarrow> (\<exists>r rs. api content = Inr (Some (r # rs)) \<and> res_flagged r = False))"
  unfolding isContentSafe_cases
  by (auto split: sum.splits option.splits list.splits)

theorem isContentSafe_fail_closed_witness:
  "failing_moderation_api ''hello'' = Inl (Error ''connection refused'')
   \<and> fst (isContentSafe failing_moderation_api 0 [] ''hello'' ''s1'') = False
   \<and> fst (isContentSafe safe_moderation_api 0 [] ''hello'' ''s1'') = True"
proof -
  have f: "failing_moderation_api ''hello'' = Inl (Error ''connection refused'')"
    by (simp add: failing_moderation_api_def)
  have "fst (isContentSafe failing_moderation_api 0 [] ''hello'' ''s1'') = False"
    using isContentSafe_fail_closed
      [of failing_moderation_api "''hello''" "Error ''connection refused''" 0 "[]" "''s1''"] f
    by blast
  moreover have "fst (isContentSafe safe_moderation_api 0 [] ''hello'' ''s1'') = True"
    using isContentSafe_fail_closed
      [of safe_moderation_api "''hello''" "Error ''connection refused''" 0 "[]" "''s1''"]
    by (simp add: safe_moderation_api_def)
  ultimately show ?thesis using f by blast
qed

lemma fold_max_less: "fold max vs (v::real) < t \<longleftrightarrow> v < t \<and> (\<forall>x \<in> set vs. x < t)"
  by (induction vs arbitrary: v) auto

lemma calculateRiskLevel_all:
  "calculateRiskLevel scores =
     (if \<forall>x \<in> snd ` set scores. x < 0.3 then ''low''
      else if \<forall>x \<in> snd ` set scores. x < 0.7 then ''medium''
      else ''high'')"
proof (cases "map snd scores")
  case Nil
  then show ?thesis by (simp add: calculateRiskLevel_def)
next
  case (Cons v vs)
  then have s: "snd ` set scores = insert v (set vs)"
    by (metis list.simps(15) set_map)
  show ?thesis
    unfolding calculateRiskLevel_def Cons s
    by (simp only: list.case Let_def fold_max_less ball_simps)
qed

lemma calculateRiskLevel_Max:
  assumes "scores \<noteq> []"
  shows "calculateRiskLevel scores =
     (if Max (snd ` set scores) < 0.3 then ''low''
      else if Max (snd ` set scores) < 0.7 then ''medium''
      else ''high'')"
proof -
  have "finite (snd ` set scores)" "snd ` set scores \<noteq> {}" using assms by auto
  then have "\<And>t. Max (snd ` set scores) < t \<longleftrightarrow> (\<forall>x \<in> snd ` set scores. x < t)"
    by (rule Max_less_iff)
  then show ?thesis unfolding calculateRiskLevel_all by (simp only:)
qed

lemma determineAction_cases:
  "determineAction flagged categories =
     (if \<not> flagged then ''allow''
      else if \<exists>c \<in> set highSeverityCategories. (c, True) \<in> set categories then ''block''
      else ''warn'')"
  unfolding determineAction_def Let_def list_ex_iff
  by auto



lemma get_or_distinct:
  "distinct (map fst obj) \<Longrightarrow> (key, v) \<in> set obj \<Longrightarrow> get_or obj key dflt = v"
  by (simp add: get_or_def)

lemma get_or_cases:
  "get_or obj key dflt = dflt \<or> (key, get_or obj key dflt) \<in> set obj"
  by (auto simp: get_or_def split: option.splits dest: map_of_SomeD)

lemma own_scores_below:
  fixes t :: real
  assumes d: "distinct (map fst raw)" and k: "fst ` set raw \<subseteq> snd ` set flds" and t: "0 < t"
  shows "(\<forall>x \<in> snd ` set (map (\<lambda>(field, name). (field, get_or raw name 0)) flds). x < t)
           \<longleftrightarrow> (\<forall>x \<in> snd ` set raw. x < t)"
proof
  assume own: "\<forall>x \<in> snd ` set (map (\<lambda>(field, name). (field, get_or raw name 0)) flds). x < t"
  show "\<forall>x \<in> snd ` set raw. x < t"
  proof
    fix x assume "x \<in> snd ` set raw"
    then obtain key where kv: "(key, x) \<in> set raw" by auto
    with k obtain field where f: "(field, key) \<in> set flds" by force
    from get_or_distinct [OF d kv] have g: "get_or raw key 0 = x" .
    from f have "get_or raw key 0 \<in> snd ` set (map (\<lambda>(field, name). (field, get_or raw name 0)) flds)"
      by force
    with own g show "x < t" by auto
  qed
next
  assume raw: "\<forall>x \<in> snd ` set raw. x < t"
  show "\<forall>x \<in> snd ` set (map (\<lambda>(field, name). (field, get_or raw name 0)) flds). x < t"
  proof
    fix x assume "x \<in> snd ` set (map (\<lambda>(field, name). (field, get_or raw name 0)) flds)"
    then obtain name where x: "x = get_or raw name 0" by auto
    from get_or_cases [of raw name 0] show "x < t"
    proof
      assume "get_or raw name 0 = 0"
      with x t show ?thesis by simp
    next
      assume "(name, get_or raw name 0) \<in> set raw"
      then have "get_or raw name 0 \<in> snd ` set raw" by force
      with raw x show ?thesis by auto
    qed
  qed
qed

lemma own_flag:
  "distinct (map fst raw) \<Longrightarrow> get_or raw name False \<longleftrightarrow> (name, True) \<in> set raw"
  using get_or_distinct [of raw name True False] get_or_cases [of raw name False]
  by auto

lemma own_high_severity:
  assumes "distinct (map fst raw)"
  shows "(\<exists>field \<in> {''hateThreatening'', ''harassmentThreatening'', ''selfHarmIntent'',
                      ''selfHarmInstructions'', ''sexualMinors'', ''violenceGraphic''}.
            (field, True) \<in> set (map (\<lambda>(field, name). (field, get_or raw name False)) categoryFields))
         \<longleftrightarrow> (\<exists>c \<in> set highSeverityCategories. (c, True) \<in> set raw)"
  by (simp add: categoryFields_def highSeverityCategories_def own_flag [OF assms])

lemma categoryFields_names:
  "snd ` set categoryFields =
     {''hate'', ''hate/threatening'', ''harassment'', ''harassment/threatening'',
      ''self-harm'', ''self-harm/intent'', ''self-harm/instructions'', ''sexual'',
      ''sexual/minors'', ''violence'', ''violence/graphic''}"
  by (simp add: categoryFields_def)

lemma own_scores_Max_below:
  fixes t :: real
  assumes d: "distinct (map fst raw)" and k: "fst ` set raw \<subseteq> snd ` set categoryFields"
    and t: "0 < t"
  shows "Max (snd ` set (map (\<lambda>(field, name). (field, get_or raw name 0)) categoryFields)) < t
           \<longleftrightarrow> (\<forall>x \<in> snd ` set raw. x < t)"
proof -
  let ?own = "snd ` set (map (\<lambda>(field, name). (field, get_or raw name (0::real))) categoryFields)"
  have "finite ?own" by simp
  moreover have "?own \<noteq> {}" by (simp add: categoryFields_def)
  ultimately have "Max ?own < t \<longleftrightarrow> (\<forall>x \<in> ?own. x < t)" by (rule Max_less_iff)
  with own_scores_below [OF d k t] show ?thesis by (simp only:)
qed

text \<open>
  C6, as the code has it. For every ModerationResult (a response \<open>moderateContent\<close>
  returns): riskLevel is low when the maximum of the category scores the moderation
  capability returned is below 0.3, medium when it is below 0.7, and high otherwise (low
  when it returned none). The result keeps the scores of its eleven categories only; when
  the capability returns no other category, that maximum is the maximum of the result's
  own \<open>categoryScores\<close>. The action is allow when not flagged, block whenever a category
  of the fixed high-severity subset is flagged, whatever the risk level, and warn for
  every other flagged result; the six high-severity flags are among those the result
  keeps, so this holds of its own \<open>categories\<close> as well. The capability's objects have
  each key once.
\<close>

theorem moderation_riskLevel_action:
  assumes "moderateContent api now h content sid = (Inr resp, h')"
  shows "\<exists>result rest. api content = Inr (Some (result # rest))
     \<and> mr_riskLevel resp =
         (if \<forall>score \<in> snd ` set (res_category_scores result). score < 0.3 then ''low''
          else if \<forall>score \<in> snd ` set (res_category_scores result). score < 0.7 then ''medium''
          else ''high'')
     \<and> (res_category_scores result \<noteq> [] \<longrightarrow>
          mr_riskLevel resp =
            (if Max (snd ` set (res_category_scores result)) < 0.3 then ''low''
             else if Max (snd ` set (res_category_scores result)) < 0.7 then ''medium''
             else ''high''))
     \<and> (distinct (map fst (res_category_scores result))
          \<and> fst ` set (res_category_scores result)
              \<subseteq> {''hate'', ''hate/threatening'', ''harassment'', ''harassment/threatening'',
                  ''self-harm'', ''self-harm/intent'', ''self-harm/instructions'', ''sexual'',
                  ''sexual/minors'', ''violence'', ''violence/graphic''} \<longrightarrow>
          mr_riskLevel resp =
            (if Max (snd ` set (mr_categoryScores resp)) < 0.3 then ''low''
             else if Max (snd ` set (mr_categoryScores resp)) < 0.7 then ''medium''
             else ''high''))
     \<and> mr_action resp =
         (if \<not> mr_flagged resp then ''allow''
          else if \<exists>c \<in> {''hate/threatening'', ''harassment/threatening'', ''self-harm/intent'',
                          ''self-harm/instructions'', ''sexual/minors'', ''violence/graphic''}.
                    (c, True) \<in> set (res_categories result)
          then ''block''
          else ''warn'')
     \<and> (distinct (map fst (res_categories result)) \<longrightarrow>
          mr_action resp =
            (if \<not> mr_flagged resp then ''allow''
             else if \<exists>field \<in> {''hateThreatening'', ''harassmentThreatening'', ''selfHarmIntent'',
                                 ''selfHarmInstructions'', ''sexualMinors'', ''violenceGraphic''}.
                       (field, True) \<in> set (mr_categories resp)
             then ''block''
             else ''warn''))"
proof -
  from assms obtain result rest where api: "api content = Inr (Some (result # rest))"
    by (auto simp: moderateContent_def split: sum.splits option.splits list.splits)
  with assms have risk: "mr_riskLevel resp = calculateRiskLevel (res_category_scores result)"
    and act: "mr_action resp = determineAction (res_flagged result) (res_categories result)"
    and fl: "mr_flagged resp = res_flagged result"
    and own_scores: "mr_categoryScores resp =
           map (\<lambda>(field, name). (field, get_or (res_category_scores result) name 0)) categoryFields"
    and own_cats: "mr_categories resp =
           map (\<lambda>(field, name). (field, get_or (res_categories result) name False)) categoryFields"
    by (auto simp: moderateContent_def Let_def)
  have hs: "set highSeverityCategories =
      {''hate/threatening'', ''harassment/threatening'', ''self-harm/intent'',
       ''self-harm/instructions'', ''sexual/minors'', ''violence/graphic''}"
    by (simp add: highSeverityCategories_def)
  have a: "mr_riskLevel resp =
         (if \<forall>score \<in> snd ` set (res_category_scores result). score < 0.3 then ''low''
          else if \<forall>score \<in> snd ` set (res_category_scores result). score < 0.7 then ''medium''
          else ''high'')"
    unfolding risk by (rule calculateRiskLevel_all)
  have b: "res_category_scores result \<noteq> [] \<longrightarrow>
          mr_riskLevel resp =
            (if Max (snd ` set (res_category_scores result)) < 0.3 then ''low''
             else if Max (snd ` set (res_category_scores result)) < 0.7 then ''medium''
             else ''high'')"
    unfolding risk using calculateRiskLevel_Max by blast
  have b': "mr_riskLevel resp =
            (if Max (snd ` set (mr_categoryScores resp)) < 0.3 then ''low''
             else if Max (snd ` set (mr_categoryScores resp)) < 0.7 then ''medium''
             else ''high'')"
    if d: "distinct (map fst (res_category_scores result))"
      and k: "fst ` set (res_category_scores result)
              \<subseteq> {''hate'', ''hate/threatening'', ''harassment'', ''harassment/threatening'',
                  ''self-harm'', ''self-harm/intent'', ''self-harm/instructions'', ''sexual'',
                  ''sexual/minors'', ''violence'', ''violence/graphic''}"
  proof -
    from k have k': "fst ` set (res_category_scores result) \<subseteq> snd ` set categoryFields"
      unfolding categoryFields_names .
    have p3: "(0::real) < 0.3" and p7: "(0::real) < 0.7" by simp_all
    show ?thesis
      unfolding a own_scores own_scores_Max_below [OF d k' p3] own_scores_Max_below [OF d k' p7] ..
  qed
  have c: "mr_action resp =
         (if \<not> mr_flagged resp then ''allow''
          else if \<exists>c \<in> {''hate/threatening'', ''harassment/threatening'', ''self-harm/intent'',
                          ''self-harm/instructions'', ''sexual/minors'', ''violence/graphic''}.
                    (c, True) \<in> set (res_categories result)
          then ''block''
          else ''warn'')"
    unfolding act fl determineAction_cases hs ..
  have c': "mr_action resp =
            (if \<not> mr_flagged resp then ''allow''
             else if \<exists>field \<in> {''hateThreatening'', ''harassmentThreatening'', ''selfHarmIntent'',
                                 ''selfHarmInstructions'', ''sexualMinors'', ''violenceGraphic''}.
                       (field, True) \<in> set (mr_categories resp)
             then ''block''
             else ''warn'')"
    if d: "distinct (map fst (res_categories result))"
    unfolding act fl determineAction_cases own_cats own_high_severity [OF d] ..
  from api a b b' c c' show ?thesis by blast
qed

theorem moderation_riskLevel_action_witness:
  "moderateContent ex_moderation_api 0 [] ''text'' ''s1''
     = (Inr ex_response, [(''s1'', [ex_response])])
   \<and> Max (snd ` set (mr_categoryScores ex_response)) < 0.3
   \<and> mr_riskLevel ex_response = ''low''
   \<and> (''violenceGraphic'', True) \<in> set (mr_categories ex_response)
   \<and> mr_action ex_response = ''block''"
proof -
  have run: "moderateContent ex_moderation_api 0 [] ''text'' ''s1''
     = (Inr ex_response, [(''s1'', [ex_response])])"
    by (simp add: moderateContent_def ex_moderation_api_def ex_result_def ex_response_def
        Let_def calculateRiskLevel_def determineAction_def highSeverityCategories_def
        categoryFields_def get_or_def)
  have d1: "distinct (map fst (res_category_scores ex_result))
          \<and> fst ` set (res_category_scores ex_result)
              \<subseteq> {''hate'', ''hate/threatening'', ''harassment'', ''harassment/threatening'',
                  ''self-harm'', ''self-harm/intent'', ''self-harm/instructions'', ''sexual'',
                  ''sexual/minors'', ''violence'', ''violence/graphic''}"
    by (simp add: ex_result_def)
  have d2: "distinct (map fst (res_categories ex_result))"
    by (simp add: ex_result_def)
  have m: "Max (snd ` set (mr_categoryScores ex_response)) < 0.3"
    by (simp add: ex_response_def)
  have f: "(''violenceGraphic'', True) \<in> set (mr_categories ex_response)"
    by (simp add: ex_response_def)
  have fl: "mr_flagged ex_response" by (simp add: ex_response_def)
  from moderation_riskLevel_action [OF run] obtain result rest where
    api: "ex_moderation_api ''text'' = Inr (Some (result # rest))"
    and r: "distinct (map fst (res_category_scores result))
          \<and> fst ` set (res_category_scores result)
              \<subseteq> {''hate'', ''hate/threatening'', ''harassment'', ''harassment/threatening'',
                  ''self-harm'', ''self-harm/intent'', ''self-harm/instructions'', ''sexual'',
                  ''sexual/minors'', ''violence'', ''violence/graphic''} \<longrightarrow>
          mr_riskLevel ex_response =
            (if Max (snd ` set (mr_categoryScores ex_response)) < 0.3 then ''low''
             else if Max (snd ` set (mr_categoryScores ex_response)) < 0.7 then ''medium''
             else ''high'')"
    and a: "distinct (map fst (res_categories result)) \<longrightarrow>
          mr_action ex_response =
            (if \<not> mr_flagged ex_response then ''allow''
             else if \<exists>field \<in> {''hateThreatening'', ''harassmentThreatening'', ''selfHarmIntent'',
                                 ''selfHarmInstructions'', ''sexualMinors'', ''violenceGraphic''}.
                       (field, True) \<in> set (mr_categories ex_response)
             then ''block''
             else ''warn'')"
    by blast
  from api have res: "result = ex_result" by (simp add: ex_moderation_api_def)
  from r d1 have "mr_riskLevel ex_response =
            (if Max (snd ` set (mr_categoryScores ex_response)) < 0.3 then ''low''
             else if Max (snd ` set (mr_categoryScores ex_response)) < 0.7 then ''medium''
             else ''high'')"
    unfolding res by blast
  moreover from a d2 have "mr_action ex_response =
            (if \<not> mr_flagged ex_response then ''allow''
             else if \<exists>field \<in> {''hateThreatening'', ''harassmentThreatening'', ''selfHarmIntent'',
                                 ''selfHarmInstructions'', ''sexualMinors'', ''violenceGraphic''}.
                       (field, True) \<in> set (mr_categories ex_response)
             then ''block''
             else ''warn'')"
    unfolding res by blast
  ultimately have "mr_riskLevel ex_response = ''low''" and "mr_action ex_response = ''block''"
    using m f fl by auto
  with run m f show ?thesis by blast
qed

text \<open>
  The claim as it was stated, on the result's own scores, fails when the capability
  returns a category the result does not keep: with a score of 0.9 for such a category,
  the risk level is high while every score of the result is below 0.3.
\<close>

theorem riskLevel_counts_uncopied_score:
  "moderateContent extra_category_api 0 [] ''text'' ''s1''
     = (Inr extra_category_response, [(''s1'', [extra_category_response])])
   \<and> Max (snd ` set (mr_categoryScores extra_category_response)) < 0.3
   \<and> mr_riskLevel extra_category_response = ''high''"
  by (simp add: moderateContent_def extra_category_api_def extra_category_result_def
      extra_category_response_def Let_def calculateRiskLevel_def determineAction_def
      highSeverityCategories_def categoryFields_def get_or_def)

subsection \<open>EmbeddingService.splitTextIntoChunks\<close>

lemma trim_solid: "trim s \<noteq> [] \<Longrightarrow> solid (trim s)"
proof -
  assume ne: "trim s \<noteq> []"
  define d where "d = dropWhile isSpace s"
  define r where "r = dropWhile isSpace (rev d)"
  have t: "trim s = rev r" by (simp add: trim_def d_def r_def)
  with ne have rne: "r \<noteq> []" by simp
  then have h: "\<not> isSpace (hd r)" unfolding r_def by (rule hd_dropWhile)
  from rne have "rev d \<noteq> []" unfolding r_def by auto
  then have dne: "d \<noteq> []" by simp
  then have hd_d: "\<not> isSpace (hd d)" unfolding d_def by (rule hd_dropWhile)
  have "rev d = takeWhile isSpace (rev d) @ r" by (simp add: r_def)
  then have "rev (rev d) = rev (takeWhile isSpace (rev d) @ r)" by (rule arg_cong)
  then have "d = rev r @ rev (takeWhile isSpace (rev d))" by simp
  then have "hd d = hd (rev r @ rev (takeWhile isSpace (rev d)))" by (rule arg_cong)
  also have "\<dots> = hd (rev r)" using rne by (simp add: hd_append)
  finally have "\<not> isSpace (hd (rev r))" using hd_d by simp
  moreover have "last (rev r) = hd r" using rne by (simp add: last_rev)
  ultimately show ?thesis using rne h unfolding t solid_def by simp
qed

lemma trim_prefix_solid:
  assumes "solid x"
  shows "trim (pre @ x) = dropWhile isSpace pre @ x"
proof -
  from assms have ne: "x \<noteq> []" and h: "\<not> isSpace (hd x)" and l: "\<not> isSpace (last x)"
    by (simp_all add: solid_def)
  from ne h have dx: "dropWhile isSpace x = x" by (cases x) auto
  have d: "dropWhile isSpace (pre @ x) = dropWhile isSpace pre @ x"
    using dx by (simp add: dropWhile_append)
  from ne l have "dropWhile isSpace (rev x) = rev x"
    by (cases "rev x") (auto simp: last_rev [symmetric] hd_rev)
  moreover from ne l have "last x \<in> set (rev x)" "\<not> isSpace (last x)" by auto
  ultimately have "dropWhile isSpace (rev x @ rev (dropWhile isSpace pre))
      = rev x @ rev (dropWhile isSpace pre)"
    by (simp add: dropWhile_append1)
  then show ?thesis by (simp add: trim_def d)
qed

lemma join_snoc: "grp \<noteq> [] \<Longrightarrow> join sep (grp @ [t]) = join sep grp @ sep @ t"
  by (induction sep grp rule: join.induct) auto

lemma join_solid: "grp \<noteq> [] \<Longrightarrow> \<forall>x \<in> set grp. solid x \<Longrightarrow> solid (join '' '' grp)"
proof (induction "'' ''" grp rule: join.induct)
  case 1
  then show ?case by simp
next
  case (2 w)
  then show ?case by simp
next
  case (3 w v va)
  then have sw: "solid w" and sr: "solid (join '' '' (v # va))" by auto
  then show ?case by (auto simp: solid_def)
qed

lemma chunk_step_inv:
  assumes inv: "chunk_inv seen st" and ne: "trim s \<noteq> []"
  shows "chunk_inv (seen @ [trim s]) (chunk_step m ov s st)"
proof -
  from inv obtain pgs pre grp where
    st: "st = (layout pgs, pre @ join '' '' grp)"
    and g: "\<forall>pg \<in> set pgs. snd pg \<noteq> []"
    and e: "grp = [] \<longrightarrow> pre = []"
    and so: "\<forall>x \<in> set grp. solid x"
    and seen: "concat (map snd pgs) @ grp = seen"
    unfolding chunk_inv_def by blast
  let ?t = "trim s"
  let ?cur = "pre @ join '' '' grp"
  have st_solid: "solid ?t" using ne by (rule trim_solid)
  show ?thesis
  proof (cases "int (length ?cur) + int (length ?t) > m \<and> length ?cur > 0")
    case True
    then have "?cur \<noteq> []" by auto
    with e have gne: "grp \<noteq> []" by auto
    let ?words = "split_on CHR '' '' ?cur"
    let ?pre' = "join '' '' (slice_from (- (ov div 5)) ?words) @ '' ''"
    have step: "chunk_step m ov s st = (layout pgs @ [trim ?cur], ?pre' @ join '' '' [?t])"
      using True by (simp add: chunk_step_def st Let_def)
    have "trim ?cur = dropWhile isSpace pre @ join '' '' grp"
      using join_solid [OF gne so] by (rule trim_prefix_solid)
    then have lay: "layout pgs @ [trim ?cur] = layout (pgs @ [(dropWhile isSpace pre, grp)])"
      by (simp add: layout_def)
    show ?thesis
      unfolding chunk_inv_def step lay
      apply (rule exI [of _ "pgs @ [(dropWhile isSpace pre, grp)]"])
      apply (rule exI [of _ ?pre'])
      apply (rule exI [of _ "[?t]"])
      using g gne st_solid seen by auto
  next
    case False
    show ?thesis
    proof (cases "grp = []")
      case True
      with e have "?cur = []" by simp
      then have step: "chunk_step m ov s st = (layout pgs, [] @ join '' '' [?t])"
        using False by (simp add: chunk_step_def st Let_def)
      show ?thesis
        unfolding chunk_inv_def step
        apply (rule exI [of _ pgs])
        apply (rule exI [of _ "[]"])
        apply (rule exI [of _ "[?t]"])
        using g st_solid seen True by auto
    next
      case gne: False
      from join_solid [OF gne so] have "?cur \<noteq> []" by (simp add: solid_def)
      then have step: "chunk_step m ov s st = (layout pgs, pre @ join '' '' (grp @ [?t]))"
        using False by (simp add: chunk_step_def st Let_def join_snoc [OF gne])
      show ?thesis
        unfolding chunk_inv_def step
        apply (rule exI [of _ pgs])
        apply (rule exI [of _ pre])
        apply (rule exI [of _ "grp @ [?t]"])
        using g st_solid seen so by auto
    qed
  qed
qed

lemma fold_chunk_inv:
  "chunk_inv seen st \<Longrightarrow> \<forall>s \<in> set ss. trim s \<noteq> [] \<Longrightarrow>
     chunk_inv (seen @ map trim ss) (fold (chunk_step m ov) ss st)"
proof (induction ss arbitrary: seen st)
  case Nil
  then show ?case by simp
next
  case (Cons s ss)
  from Cons.prems have "chunk_inv (seen @ [trim s]) (chunk_step m ov s st)"
    by (auto intro: chunk_step_inv)
  from Cons.IH [OF this] Cons.prems(2) show ?case by simp
qed

lemma chunk_inv_init: "chunk_inv [] ([], [])"
  unfolding chunk_inv_def layout_def
  by (rule exI [of _ "[]"], rule exI [of _ "[]"], rule exI [of _ "[]"]) simp

lemma splitTextIntoChunks_layout:
  "\<exists>pgs. splitTextIntoChunks text m ov = layout pgs
     \<and> (\<forall>pg \<in> set pgs. snd pg \<noteq> [])
     \<and> concat (map snd pgs) = sentences_of text"
proof -
  let ?ss = "filter (\<lambda>s. length (trim s) > 0) (split_terminators text)"
  have "\<forall>s \<in> set ?ss. trim s \<noteq> []" by auto
  from fold_chunk_inv [OF chunk_inv_init this, of m ov]
  have "chunk_inv (sentences_of text) (fold (chunk_step m ov) ?ss ([], []))"
    by (simp add: sentences_of_def)
  then obtain pgs pre grp where
    st: "fold (chunk_step m ov) ?ss ([], []) = (layout pgs, pre @ join '' '' grp)"
    and g: "\<forall>pg \<in> set pgs. snd pg \<noteq> []"
    and e: "grp = [] \<longrightarrow> pre = []"
    and so: "\<forall>x \<in> set grp. solid x"
    and seen: "concat (map snd pgs) @ grp = sentences_of text"
    unfolding chunk_inv_def by blast
  show ?thesis
  proof (cases "grp = []")
    case True
    with e have "trim (pre @ join '' '' grp) = []" by (simp add: trim_def)
    then have "splitTextIntoChunks text m ov = layout pgs"
      unfolding splitTextIntoChunks_def Let_def st by simp
    with g seen True show ?thesis by auto
  next
    case False
    from join_solid [OF False so] have js: "solid (join '' '' grp)" .
    then have t: "trim (pre @ join '' '' grp) = dropWhile isSpace pre @ join '' '' grp"
      by (rule trim_prefix_solid)
    with js have "trim (pre @ join '' '' grp) \<noteq> []" by (simp add: solid_def)
    then have "splitTextIntoChunks text m ov = layout pgs @ [trim (pre @ join '' '' grp)]"
      unfolding splitTextIntoChunks_def Let_def st by simp
    then have "splitTextIntoChunks text m ov = layout (pgs @ [(dropWhile isSpace pre, grp)])"
      by (simp add: layout_def t)
    moreover have "\<forall>pg \<in> set (pgs @ [(dropWhile isSpace pre, grp)]). snd pg \<noteq> []"
      using g False by auto
    moreover have "concat (map snd (pgs @ [(dropWhile isSpace pre, grp)])) = sentences_of text"
      using seen by simp
    ultimately show ?thesis by blast
  qed
qed


lemma filter_dropWhile_neg: "filter (\<lambda>c. \<not> P c) (dropWhile P cs) = filter (\<lambda>c. \<not> P c) cs"
  by (induction cs) auto

lemma concat_split_terminators:
  "concat (split_terminators inp) = filter (\<lambda>c. \<not> isTerminator c) inp"
proof (induction inp rule: split_terminators.induct)
  case 1
  show ?case by simp
next
  case (2 c cs)
  show ?case
  proof (cases "isTerminator c")
    case True
    with 2 show ?thesis by (simp add: filter_dropWhile_neg)
  next
    case False
    with 2 show ?thesis by (cases "split_terminators cs") auto
  qed
qed

lemma filter_trim: "filter (\<lambda>c. \<not> isSpace c) (trim s) = filter (\<lambda>c. \<not> isSpace c) s"
  by (simp add: trim_def filter_dropWhile_neg flip: rev_filter)

lemma filter_blank: "trim s = [] \<Longrightarrow> filter (\<lambda>c. \<not> isSpace c) s = []"
  by (metis filter.simps(1) filter_trim)

lemma filter_sentences:
  "filter (\<lambda>c. \<not> isSpace c) (concat (map trim (filter (\<lambda>s. length (trim s) > 0) ps)))
     = filter (\<lambda>c. \<not> isSpace c) (concat ps)"
  by (induction ps) (auto simp: filter_trim filter_blank)

lemma sentences_chars:
  "filter (\<lambda>c. \<not> isSpace c) (concat (sentences_of text))
     = filter (\<lambda>c. \<not> isSpace c \<and> \<not> isTerminator c) text"
  unfolding sentences_of_def filter_sentences concat_split_terminators
  by (simp add: conj_commute)

lemma sublist_prepend: "sublist s ys \<Longrightarrow> sublist s (ps @ ys)"
  unfolding sublist_def by (metis append.assoc)

lemma sublist_join: "s \<in> set grp \<Longrightarrow> sublist s (join sep grp)"
proof (induction sep grp rule: join.induct)
  case (1 sep)
  then show ?case by simp
next
  case (2 sep w)
  then show ?case by simp
next
  case (3 sep w v va)
  show ?case
  proof (cases "s = w")
    case True
    then show ?thesis by (simp add: sublist_append_rightI)
  next
    case False
    with 3 have "sublist s (join sep (v # va))" by auto
    then have "sublist s ((w @ sep) @ join sep (v # va))" by (rule sublist_prepend)
    then show ?thesis by simp
  qed
qed



text \<open>
  C9. For every input text the chunker's output preserves source order, and every
  non-whitespace character of the input's sentence content appears in an emitted chunk:
  no sentence is dropped or reordered. Each chunk is an overlap prefix followed by a
  non-empty group of consecutive sentences joined by single spaces; the groups, chunk
  after chunk, are exactly the trimmed sentences of the input in their order; the
  non-white-space characters of those sentences are exactly the characters of the input
  that are neither white space nor terminators, in order; and every sentence is a
  contiguous part of some chunk.
\<close>

theorem splitTextIntoChunks_covers_in_order:
  "\<exists>pgs. splitTextIntoChunks text maxChunkSize overlapSize
            = map (\<lambda>(pre, grp). pre @ join '' '' grp) pgs
     \<and> (\<forall>pg \<in> set pgs. snd pg \<noteq> [])
     \<and> concat (map snd pgs) = sentences_of text
     \<and> filter (\<lambda>c. \<not> isSpace c) (concat (sentences_of text))
         = filter (\<lambda>c. \<not> isSpace c \<and> \<not> isTerminator c) text
     \<and> (\<forall>s \<in> set (sentences_of text).
           \<exists>c \<in> set (splitTextIntoChunks text maxChunkSize overlapSize). sublist s c)"
proof -
  from splitTextIntoChunks_layout [of "text" maxChunkSize overlapSize] obtain pgs where
    l: "splitTextIntoChunks text maxChunkSize overlapSize = layout pgs"
    and g: "\<forall>pg \<in> set pgs. snd pg \<noteq> []"
    and c: "concat (map snd pgs) = sentences_of text"
    by blast
  have cover: "\<exists>c \<in> set (layout pgs). sublist s c" if "s \<in> set (sentences_of text)" for s
  proof -
    from that c have "s \<in> set (concat (map snd pgs))" by simp
    then obtain pg where pg: "pg \<in> set pgs" and sg: "s \<in> set (snd pg)" by auto
    from sg have "sublist s (join '' '' (snd pg))" by (rule sublist_join)
    then have "sublist s (fst pg @ join '' '' (snd pg))" by (rule sublist_prepend)
    moreover from pg have "fst pg @ join '' '' (snd pg) \<in> set (layout pgs)"
      by (force simp: layout_def)
    ultimately show ?thesis by blast
  qed
  have l': "splitTextIntoChunks text maxChunkSize overlapSize
            = map (\<lambda>(pre, grp). pre @ join '' '' grp) pgs"
    unfolding l layout_def ..
  have cov: "\<forall>s \<in> set (sentences_of text).
           \<exists>c \<in> set (splitTextIntoChunks text maxChunkSize overlapSize). sublist s c"
    unfolding l using cover by blast
  show ?thesis
    by (rule exI [of _ pgs]) (intro conjI l' g c sentences_chars cov)
qed

theorem splitTextIntoChunks_covers_in_order_witness:
  "''Is it'' \<in> set (sentences_of ex_text)
   \<and> (\<exists>c \<in> set (splitTextIntoChunks ex_text 20 10). sublist ''Is it'' c)
   \<and> splitTextIntoChunks ex_text 20 10
       = [''Hello world'', ''Hello world This is  a test'', ''a test Is it Yes'']"
proof -
  have m: "''Is it'' \<in> set (sentences_of ex_text)"
    unfolding ex_text_def by code_simp
  from splitTextIntoChunks_covers_in_order [of ex_text 20 10]
  have "\<forall>s \<in> set (sentences_of ex_text).
           \<exists>c \<in> set (splitTextIntoChunks ex_text 20 10). sublist s c"
    by (elim exE conjE)
  with m have "\<exists>c \<in> set (splitTextIntoChunks ex_text 20 10). sublist ''Is it'' c"
    by blast
  moreover have "splitTextIntoChunks ex_text 20 10
       = [''Hello world'', ''Hello world This is  a test'', ''a test Is it Yes'']"
    unfolding ex_text_def by code_simp
  ultimately show ?thesis using m by (intro conjI)
qed

subsection \<open>EmbeddingService.calculateCosineSimilarity\<close>

lemma fold_sums:
  "length a = length b \<Longrightarrow>
   fold (\<lambda>(x, y) (d, na, nb). (d + x * y, na + x * x, nb + y * y)) (zip a b) (d0, a0, b0)
     = (d0 + (\<Sum>(x, y) \<leftarrow> zip a b. x * y), a0 + (\<Sum>x \<leftarrow> a. x * x), b0 + (\<Sum>y \<leftarrow> b. y * y))"
proof (induction a b arbitrary: d0 a0 b0 rule: list_induct2)
  case Nil
  show ?case by simp
next
  case (Cons x xs y ys)
  show ?case by (simp add: Cons.IH algebra_simps)
qed

lemma cauchy_schwarz_list:
  "length a = length b \<Longrightarrow>
   (\<Sum>(x, y) \<leftarrow> zip a b. x * y)\<^sup>2 \<le> (\<Sum>x \<leftarrow> a. x * x) * (\<Sum>y \<leftarrow> b. y * (y::real))"
proof (induction a b rule: list_induct2)
  case Nil
  show ?case by simp
next
  case (Cons x xs y ys)
  define d where "d = (\<Sum>(x, y) \<leftarrow> zip xs ys. x * y)"
  define A where "A = (\<Sum>x \<leftarrow> xs. x * x)"
  define B where "B = (\<Sum>y \<leftarrow> ys. y * y)"
  have A0: "0 \<le> A" unfolding A_def by (rule sum_list_nonneg) auto
  have B0: "0 \<le> B" unfolding B_def by (rule sum_list_nonneg) auto
  have ih: "d\<^sup>2 \<le> A * B" using Cons.IH by (simp add: d_def A_def B_def)
  have "(2 * d * (x * y))\<^sup>2 = 4 * d\<^sup>2 * (x\<^sup>2 * y\<^sup>2)" by (simp add: power2_eq_square)
  also have "\<dots> \<le> 4 * (A * B) * (x\<^sup>2 * y\<^sup>2)"
    using ih by (intro mult_right_mono mult_left_mono) auto
  also have "\<dots> \<le> (A * y\<^sup>2 + B * x\<^sup>2)\<^sup>2"
  proof -
    have "0 \<le> (A * y\<^sup>2 - B * x\<^sup>2)\<^sup>2" by simp
    then show ?thesis by (simp add: power2_eq_square algebra_simps)
  qed
  finally have "(2 * d * (x * y))\<^sup>2 \<le> (A * y\<^sup>2 + B * x\<^sup>2)\<^sup>2" .
  moreover have "0 \<le> A * y\<^sup>2 + B * x\<^sup>2" using A0 B0 by simp
  ultimately have "2 * d * (x * y) \<le> A * y\<^sup>2 + B * x\<^sup>2"
    by (metis abs_le_square_iff abs_le_D1 abs_of_nonneg)
  then have "(x * y + d)\<^sup>2 \<le> (x * x + A) * (y * y + B)"
    using ih by (simp add: power2_eq_square algebra_simps)
  then show ?case by (simp add: d_def A_def B_def)
qed


lemma sum_squares_zero: "(\<Sum>x \<leftarrow> a. x * x) = 0 \<longleftrightarrow> (\<forall>x \<in> set a. x = (0::real))"
proof (induction a)
  case Nil
  show ?case by simp
next
  case (Cons x xs)
  have "0 \<le> (\<Sum>x \<leftarrow> xs. x * x)" by (rule sum_list_nonneg) auto
  moreover have "0 \<le> x * x" by simp
  ultimately have "x * x + (\<Sum>x \<leftarrow> xs. x * x) = 0 \<longleftrightarrow> x * x = 0 \<and> (\<Sum>x \<leftarrow> xs. x * x) = 0"
    by (simp add: add_nonneg_eq_0_iff)
  then show ?case using Cons.IH by simp
qed

lemma norm2_zero: "norm2 a = 0 \<longleftrightarrow> (\<forall>x \<in> set a. x = 0)"
  by (simp add: norm2_def sum_squares_zero)

lemma norm2_nonneg: "0 \<le> norm2 a"
  unfolding norm2_def by (intro real_sqrt_ge_zero sum_list_nonneg) auto

lemma dot_self: "dot a a = (norm2 a)\<^sup>2"
proof -
  have "(\<Sum>(x, y) \<leftarrow> zip a a. x * y) = (\<Sum>x \<leftarrow> a. x * x)"
    by (induction a) auto
  moreover have "0 \<le> (\<Sum>x \<leftarrow> a. x * x)" by (rule sum_list_nonneg) auto
  ultimately show ?thesis by (simp add: dot_def norm2_def)
qed

lemma cosine_value:
  assumes "length a = length b"
  shows "calculateCosineSimilarity a b =
     Inr (if norm2 a = 0 \<or> norm2 b = 0 then 0 else dot a b / (norm2 a * norm2 b))"
  using assms fold_sums [OF assms, of 0 0 0]
  by (simp add: calculateCosineSimilarity_def Let_def dot_def norm2_def)

lemma dot_bound:
  assumes "length a = length b"
  shows "\<bar>dot a b\<bar> \<le> norm2 a * norm2 b"
proof -
  have A0: "0 \<le> (\<Sum>x \<leftarrow> a. x * x)" by (rule sum_list_nonneg) auto
  have B0: "0 \<le> (\<Sum>y \<leftarrow> b. y * y)" by (rule sum_list_nonneg) auto
  have "(dot a b)\<^sup>2 \<le> (\<Sum>x \<leftarrow> a. x * x) * (\<Sum>y \<leftarrow> b. y * y)"
    unfolding dot_def using assms by (rule cauchy_schwarz_list)
  also have "\<dots> = (norm2 a * norm2 b)\<^sup>2"
    using A0 B0 by (simp add: norm2_def power_mult_distrib)
  finally have "(dot a b)\<^sup>2 \<le> (norm2 a * norm2 b)\<^sup>2" .
  moreover have "0 \<le> norm2 a * norm2 b" by (simp add: norm2_nonneg)
  ultimately show ?thesis by (metis abs_le_square_iff abs_of_nonneg)
qed

text \<open>
  The cosine similarity in exact arithmetic: a throw exactly when the lengths differ;
  otherwise a value in \<open>[-1, 1]\<close>, equal to \<open>dot a b / (norm2 a * norm2 b)\<close> when
  both norms are not zero and to 0 when one is; and 1 for a vector with a non-zero entry
  against itself. Rounding, overflow and underflow of IEEE doubles are outside this
  reading.
\<close>

lemma calculateCosineSimilarity_exact:
  "(isl (calculateCosineSimilarity a b) \<longleftrightarrow> length a \<noteq> length b)
   \<and> (length a \<noteq> length b \<longrightarrow>
        calculateCosineSimilarity a b
          = Inl (Error ''Vectors must have the same length for cosine similarity calculation''))
   \<and> (length a = length b \<longrightarrow>
        (\<exists>r. calculateCosineSimilarity a b = Inr r \<and> - 1 \<le> r \<and> r \<le> 1
           \<and> (norm2 a \<noteq> 0 \<and> norm2 b \<noteq> 0 \<longrightarrow> r = dot a b / (norm2 a * norm2 b))
           \<and> (norm2 a = 0 \<or> norm2 b = 0 \<longrightarrow> r = 0)
           \<and> ((\<forall>x \<in> set a. x = 0) \<or> (\<forall>y \<in> set b. y = 0) \<longrightarrow> r = 0)))
   \<and> ((\<exists>x \<in> set a. x \<noteq> 0) \<longrightarrow> calculateCosineSimilarity a a = Inr 1)"
proof (intro conjI impI)
  show "isl (calculateCosineSimilarity a b) \<longleftrightarrow> length a \<noteq> length b"
    by (cases "length a = length b") (simp_all add: cosine_value, simp add: calculateCosineSimilarity_def)
  show "calculateCosineSimilarity a b
          = Inl (Error ''Vectors must have the same length for cosine similarity calculation'')"
    if "length a \<noteq> length b"
    using that by (simp add: calculateCosineSimilarity_def)
  show "\<exists>r. calculateCosineSimilarity a b = Inr r \<and> - 1 \<le> r \<and> r \<le> 1
           \<and> (norm2 a \<noteq> 0 \<and> norm2 b \<noteq> 0 \<longrightarrow> r = dot a b / (norm2 a * norm2 b))
           \<and> (norm2 a = 0 \<or> norm2 b = 0 \<longrightarrow> r = 0)
           \<and> ((\<forall>x \<in> set a. x = 0) \<or> (\<forall>y \<in> set b. y = 0) \<longrightarrow> r = 0)"
    if len: "length a = length b"
  proof (cases "norm2 a = 0 \<or> norm2 b = 0")
    case True
    then show ?thesis using cosine_value [OF len] by (auto simp: norm2_zero)
  next
    case False
    then have pos: "0 < norm2 a * norm2 b"
      using norm2_nonneg [of a] norm2_nonneg [of b] by (simp add: less_le)
    have v: "calculateCosineSimilarity a b = Inr (dot a b / (norm2 a * norm2 b))"
      using cosine_value [OF len] False by simp
    have "\<bar>dot a b / (norm2 a * norm2 b)\<bar> = \<bar>dot a b\<bar> / (norm2 a * norm2 b)"
      using pos by (simp only: abs_divide abs_of_pos)
    also have "\<dots> \<le> 1" using dot_bound [OF len] pos by (simp only: divide_le_eq_1_pos)
    finally have "\<bar>dot a b / (norm2 a * norm2 b)\<bar> \<le> 1" .
    then have "- 1 \<le> dot a b / (norm2 a * norm2 b)" "dot a b / (norm2 a * norm2 b) \<le> 1"
      by linarith+
    with v False show ?thesis by (auto simp: norm2_zero)
  qed
  show "calculateCosineSimilarity a a = Inr 1" if "\<exists>x \<in> set a. x \<noteq> 0"
  proof -
    from that have nz: "norm2 a \<noteq> 0" by (simp add: norm2_zero)
    then show ?thesis
      using cosine_value [of a a] by (simp add: dot_self power2_eq_square)
  qed
qed

subsection \<open>IntegrationService: reading session state\<close>

lemma map_of_update_same: "map_of (AList.update k v al) k = Some v"
  by (simp add: update_conv')

lemma map_of_update_other: "k' \<noteq> k \<Longrightarrow> map_of (AList.update k v al) k' = map_of al k'"
  by (simp add: update_conv')

lemma keys_update_present:
  "map_of al k = Some w \<Longrightarrow> map fst (AList.update k v al) = map fst al"
  by (induction al) (auto split: if_splits)

lemma fold_messagesCount_update:
  "map_of al k = Some w \<Longrightarrow> messagesCount v = messagesCount w \<Longrightarrow>
   fold (\<lambda>stat sum. sum + messagesCount stat) (map snd (AList.update k v al)) n
     = fold (\<lambda>stat sum. sum + messagesCount stat) (map snd al) n"
  by (induction al arbitrary: n) (auto split: if_splits)

lemma length_update_present:
  "map_of al k = Some w \<Longrightarrow> length (AList.update k v al) = length al"
  by (induction al) (auto split: if_splits)

lemma getSessionStatistics_frame:
  fixes svc now sessionId
  defines "svc' \<equiv> snd (getSessionStatistics svc now sessionId)"
  shows "sessionFeatures svc' = sessionFeatures svc"
    and "map fst (sessionStatistics svc') = map fst (sessionStatistics svc)"
    and "map_of (sessionStatistics svc) sessionId = None \<Longrightarrow> svc' = svc"
    and "other \<noteq> sessionId \<Longrightarrow>
           map_of (sessionStatistics svc') other = map_of (sessionStatistics svc) other"
    and "map_of (sessionStatistics svc) sessionId = Some stored \<Longrightarrow>
           map_of (sessionStatistics svc') sessionId
             = Some (stored\<lparr> sessionDuration := now - startTime stored \<rparr>)"
    and "getSystemStatistics svc' = getSystemStatistics svc"
proof -
  show "sessionFeatures svc' = sessionFeatures svc"
    by (simp add: svc'_def getSessionStatistics_def Let_def split: option.splits)
  show "map fst (sessionStatistics svc') = map fst (sessionStatistics svc)"
    by (simp add: svc'_def getSessionStatistics_def Let_def keys_update_present split: option.splits)
  show "map_of (sessionStatistics svc) sessionId = None \<Longrightarrow> svc' = svc"
    by (simp add: svc'_def getSessionStatistics_def Let_def)
  show "other \<noteq> sessionId \<Longrightarrow>
           map_of (sessionStatistics svc') other = map_of (sessionStatistics svc) other"
    by (simp add: svc'_def getSessionStatistics_def Let_def map_of_update_other split: option.splits)
  show "map_of (sessionStatistics svc) sessionId = Some stored \<Longrightarrow>
           map_of (sessionStatistics svc') sessionId
             = Some (stored\<lparr> sessionDuration := now - startTime stored \<rparr>)"
    by (simp add: svc'_def getSessionStatistics_def Let_def map_of_update_same)
  show "getSystemStatistics svc' = getSystemStatistics svc"
  proof (cases "map_of (sessionStatistics svc) sessionId")
    case None
    then show ?thesis by (simp add: svc'_def getSessionStatistics_def Let_def)
  next
    case (Some stored)
    then show ?thesis
      by (simp add: svc'_def getSessionStatistics_def getSystemStatistics_def Let_def
          fold_messagesCount_update [OF Some] length_update_present [OF Some])
  qed
qed


lemma one_chat_stats:
  "sessionStatistics one_chat_integration
     = [(''s1'', (defaultStatistics ''s1'' 0)\<lparr> messagesCount := 1 \<rparr>)]"
  by (simp add: one_chat_integration_def empty_integration_def updateStatistics_def
      get_or_def Let_def defaultStatistics_def)

text \<open>
  C10, as the code has it. Reading session state never creates a session, and
  \<open>getSessionFeatures\<close> writes nothing. \<open>getSessionStatistics\<close> leaves the feature map,
  the keys of the statistics map and every other session's statistics unchanged; for a
  session without statistics the default is computed and returned without being stored,
  so the service is unchanged and the session is not counted by \<open>getSystemStatistics\<close>,
  whose result the read never changes. The one write: for a session that has statistics,
  the stored record's \<open>sessionDuration\<close> is overwritten with \<open>now - startTime\<close>.
\<close>

theorem session_reads_frame:
  "snd (getSessionFeatures svc sessionId) = svc
   \<and> sessionFeatures (snd (getSessionStatistics svc now sessionId)) = sessionFeatures svc
   \<and> map fst (sessionStatistics (snd (getSessionStatistics svc now sessionId)))
       = map fst (sessionStatistics svc)
   \<and> (map_of (sessionStatistics svc) sessionId = None \<longrightarrow>
        snd (getSessionStatistics svc now sessionId) = svc)
   \<and> (\<forall>other. other \<noteq> sessionId \<longrightarrow>
        map_of (sessionStatistics (snd (getSessionStatistics svc now sessionId))) other
          = map_of (sessionStatistics svc) other)
   \<and> (\<forall>stored. map_of (sessionStatistics svc) sessionId = Some stored \<longrightarrow>
        map_of (sessionStatistics (snd (getSessionStatistics svc now sessionId))) sessionId
          = Some (stored\<lparr> sessionDuration := now - startTime stored \<rparr>))
   \<and> getSystemStatistics (snd (getSessionStatistics svc now sessionId))
       = getSystemStatistics svc"
  using getSessionStatistics_frame [where svc = svc and now = now and sessionId = sessionId]
  by (simp add: getSessionFeatures_def)

theorem session_reads_frame_witness:
  "map_of (sessionStatistics one_chat_integration) ''s2'' = None
   \<and> snd (getSessionStatistics one_chat_integration 5000 ''s2'') = one_chat_integration
   \<and> totalSessions (getSystemStatistics (snd (getSessionStatistics one_chat_integration 5000 ''s2''))) = 1
   \<and> map_of (sessionStatistics (snd (getSessionStatistics one_chat_integration 5000 ''s1''))) ''s1''
       = Some ((defaultStatistics ''s1'' 0)\<lparr> messagesCount := 1, sessionDuration := 5000 \<rparr>)"
proof -
  have a: "map_of (sessionStatistics one_chat_integration) ''s2'' = None"
    by (simp add: one_chat_stats)
  have b: "map_of (sessionStatistics one_chat_integration) ''s1''
      = Some ((defaultStatistics ''s1'' 0)\<lparr> messagesCount := 1 \<rparr>)"
    by (simp add: one_chat_stats)
  note f2 = session_reads_frame [of one_chat_integration "''s2''" 5000]
  note f1 = session_reads_frame [of one_chat_integration "''s1''" 5000]
  from f2 a have c: "snd (getSessionStatistics one_chat_integration 5000 ''s2'') = one_chat_integration"
    by blast
  have d: "totalSessions (getSystemStatistics one_chat_integration) = 1"
    by (simp add: getSystemStatistics_def one_chat_stats Let_def)
  from f1 b have "map_of (sessionStatistics (snd (getSessionStatistics one_chat_integration 5000 ''s1''))) ''s1''
       = Some ((defaultStatistics ''s1'' 0)\<lparr> messagesCount := 1 \<rparr>
                 \<lparr> sessionDuration := 5000 - startTime ((defaultStatistics ''s1'' 0)\<lparr> messagesCount := 1 \<rparr>) \<rparr>)"
    by blast
  then have e: "map_of (sessionStatistics (snd (getSessionStatistics one_chat_integration 5000 ''s1''))) ''s1''
       = Some ((defaultStatistics ''s1'' 0)\<lparr> messagesCount := 1, sessionDuration := 5000 \<rparr>)"
    by (simp add: defaultStatistics_def)
  from a c d e show ?thesis by simp
qed

text \<open>
  The claim as it was stated, that \<open>getSessionStatistics\<close> leaves the statistics map
  unchanged, fails for a session that has statistics: after one chat at time 0, a read at
  time 5000 changes the stored record.
\<close>

theorem getSessionStatistics_writes_duration:
  "sessionStatistics (snd (getSessionStatistics one_chat_integration 5000 ''s1''))
     \<noteq> sessionStatistics one_chat_integration"
  by (simp add: getSessionStatistics_def one_chat_stats Let_def defaultStatistics_def)

subsection \<open>IntegrationService.processRequest with the knowledge base disabled\<close>

lemma updateStatistics_kb:
  "map_of (sessionStatistics (updateStatistics svc now sessionId ''knowledge_base_query'')) sessionId
     = Some ((get_or (sessionStatistics svc) sessionId (defaultStatistics sessionId now))
               \<lparr> knowledgeBaseQueries :=
                   knowledgeBaseQueries (get_or (sessionStatistics svc) sessionId
                                           (defaultStatistics sessionId now)) + 1,
                 messagesCount :=
                   messagesCount (get_or (sessionStatistics svc) sessionId
                                    (defaultStatistics sessionId now)) + 1,
                 lastActivity := now \<rparr>)"
  by (simp add: updateStatistics_def Let_def update_conv')

lemma updateStatistics_features:
  "sessionFeatures (updateStatistics svc now sessionId action) = sessionFeatures svc"
  by (simp add: updateStatistics_def Let_def)

lemma speech_fields:
  "ir_chat (speech caps request features response) = ir_chat response"
  "ir_knowledgeBase (speech caps request features response) = ir_knowledgeBase response"
  "ir_requestType (speech caps request features response) = ir_requestType response"
  "ir_moderation (speech caps request features response) = ir_moderation response"
  by (simp_all add: speech_def split: option.splits sum.splits)

lemma route_kb_disabled:
  assumes off: "\<not> knowledgeBase features"
    and cls: "analyzeRequestType (req_message request) = ''knowledge_base_query''"
    and r: "route caps now sv request features response = (Inr response', sv')"
    and nokb: "ir_knowledgeBase response = None"
  shows "\<exists>reply h.
           sendMessage (cap_chat caps) now (svc_chat sv) kbDisabledMessage (req_sessionId request)
             = (Inr reply, h)
           \<and> ir_chat response' = Some reply
           \<and> ir_requestType response' = Some ''knowledge_base_query''
           \<and> ir_knowledgeBase response' = None
           \<and> ir_moderation response' = ir_moderation response
           \<and> sv' = sv\<lparr> svc_chat := h,
                        svc_integration :=
                          updateStatistics (svc_integration sv) now (req_sessionId request)
                            ''knowledge_base_query'' \<rparr>"
proof -
  obtain res h where sm:
    "sendMessage (cap_chat caps) now (svc_chat sv) kbDisabledMessage (req_sessionId request) = (res, h)"
    by (cases "sendMessage (cap_chat caps) now (svc_chat sv) kbDisabledMessage (req_sessionId request)")
  have d: "dispatch caps now sv request features ''knowledge_base_query''
             (response\<lparr> ir_requestType := Some ''knowledge_base_query'' \<rparr>)
           = (case res of Inl e \<Rightarrow> (Inl e, sv\<lparr> svc_chat := h \<rparr>)
              | Inr reply \<Rightarrow> (Inr (response\<lparr> ir_requestType := Some ''knowledge_base_query'',
                                              ir_chat := Some reply \<rparr>), sv\<lparr> svc_chat := h \<rparr>))"
    using off by (simp add: dispatch_def chat_into_def sm split: sum.splits)
  show ?thesis
  proof (cases res)
    case (Inl e)
    with r d cls show ?thesis by (simp add: route_def Let_def)
  next
    case (Inr reply)
    with r d cls nokb sm show ?thesis
      by (auto simp: route_def Let_def speech_fields)
  qed
qed


lemma processRequest_try_kb_disabled:
  assumes off: "\<not> knowledgeBase (fst (getSessionFeatures (svc_integration sv) (req_sessionId request)))"
    and cls: "analyzeRequestType (req_message request) = ''knowledge_base_query''"
    and run: "processRequest_try caps now sv request = (Inr response, sv')"
    and pass: "\<forall>m. ir_moderation response = Some m \<longrightarrow> \<not> mr_flagged m"
  shows "\<exists>reply h.
           sendMessage (cap_chat caps) now (svc_chat sv) kbDisabledMessage (req_sessionId request)
             = (Inr reply, h)
           \<and> ir_chat response = Some reply
           \<and> ir_requestType response = Some ''knowledge_base_query''
           \<and> ir_knowledgeBase response = None
           \<and> svc_chat sv' = h
           \<and> svc_knowledgeBase sv' = svc_knowledgeBase sv
           \<and> svc_integration sv' =
               updateStatistics (svc_integration sv) now (req_sessionId request)
                 ''knowledge_base_query''"
proof -
  define features where
    "features = fst (getSessionFeatures (svc_integration sv) (req_sessionId request))"
  define response0 where
    "response0 = \<lparr> ir_sessionId = req_sessionId request, ir_timestamp = now,
                       ir_features = features, ir_requestType = None, ir_chat = None,
                       ir_knowledgeBase = None, ir_image = None, ir_audio = None,
                       ir_moderation = None, ir_error = None \<rparr>"
  from off have off': "\<not> knowledgeBase features" by (simp add: features_def)
  show ?thesis
  proof (cases "moderation features")
    case False
    with run have "route caps now sv request features response0 = (Inr response, sv')"
      by (simp add: processRequest_try_def Let_def features_def response0_def)
    from route_kb_disabled [OF off' cls this] show ?thesis
      by (auto simp: response0_def)
  next
    case True
    obtain res h where mc: "moderateContent (cap_moderations caps) now (svc_moderation sv)
                  (req_message request) (req_sessionId request) = (res, h)"
      by (cases "moderateContent (cap_moderations caps) now (svc_moderation sv)
                  (req_message request) (req_sessionId request)")
    show ?thesis
    proof (cases res)
      case (Inl e)
      with run True mc show ?thesis
        by (simp add: processRequest_try_def Let_def features_def)
    next
      case (Inr m)
      show ?thesis
      proof (cases "mr_flagged m")
        case flagged: True
        with run True mc Inr have "ir_moderation response = Some m"
          by (auto simp: processRequest_try_def Let_def features_def)
        with pass flagged show ?thesis by blast
      next
        case False
        with run True mc Inr
        have "route caps now (sv\<lparr> svc_moderation := h \<rparr>) request features
                (response0\<lparr> ir_moderation := Some m \<rparr>) = (Inr response, sv')"
          by (simp add: processRequest_try_def Let_def features_def response0_def)
        from route_kb_disabled [OF off' cls this] show ?thesis
          by (auto simp: response0_def)
      qed
    qed
  qed
qed


lemma ex_request_type: "analyzeRequestType ''What is an embedding?'' = ''knowledge_base_query''"
  by code_simp

lemma ex_features:
  "fst (getSessionFeatures (svc_integration kb_off_services) ''s1'')
     = defaultFeatures\<lparr> knowledgeBase := False \<rparr>"
  by (simp add: kb_off_services_def empty_services_def configureSessionFeatures_def
      empty_integration_def getSessionFeatures_def get_or_def)

lemma ex_try:
  "\<exists>response sv'. processRequest_try ex_caps 7 kb_off_services ex_request = (Inr response, sv')
      \<and> ir_moderation response \<noteq> None \<and> (\<forall>m. ir_moderation response = Some m \<longrightarrow> \<not> mr_flagged m)
      \<and> map_option cm_content (ir_chat response) = Some ''ok''
      \<and> map_option knowledgeBaseQueries
           (map_of (sessionStatistics (svc_integration sv')) ''s1'') = Some 1"
  by (simp add: processRequest_try_def getSessionFeatures_def ex_request_def ex_request_type
      defaultFeatures_def ex_caps_def moderateContent_def safe_moderation_api_def Let_def
      route_def dispatch_def chat_into_def sendMessage_def speech_def str_or_def
      kb_off_services_def empty_services_def get_or_def updateStatistics_def
      configureSessionFeatures_def empty_integration_def defaultStatistics_def
      split: sum.splits)


lemma ex_before: "map_of (sessionStatistics (svc_integration kb_off_services)) ''s1'' = None"
  by (simp add: kb_off_services_def empty_services_def configureSessionFeatures_def
      empty_integration_def)

text \<open>
  The path of a request with the knowledge base disabled. When the message is classified
  as knowledge_base_query and the request is processed without a throw and without a
  moderation block, the fixed notice goes to the chat service as the message and the
  reply becomes the response's chat; the knowledge base is left as it was; and the
  accounting step, called with the request type, adds one to \<open>knowledgeBaseQueries\<close> and
  to \<open>messagesCount\<close>.
\<close>

lemma processRequest_kb_disabled_path:
  assumes off: "\<not> knowledgeBase (fst (getSessionFeatures (svc_integration sv) (req_sessionId request)))"
    and cls: "analyzeRequestType (req_message request) = ''knowledge_base_query''"
    and run: "processRequest_try caps now sv request = (Inr response, sv')"
    and pass: "\<forall>m. ir_moderation response = Some m \<longrightarrow> \<not> mr_flagged m"
  shows "processRequest caps now sv request = (response, sv')
     \<and> (\<exists>reply h.
           sendMessage (cap_chat caps) now (svc_chat sv) kbDisabledMessage (req_sessionId request)
             = (Inr reply, h)
           \<and> ir_chat response = Some reply \<and> svc_chat sv' = h)
     \<and> ir_requestType response = Some ''knowledge_base_query''
     \<and> ir_knowledgeBase response = None
     \<and> svc_knowledgeBase sv' = svc_knowledgeBase sv
     \<and> (\<exists>stats.
           map_of (sessionStatistics (svc_integration sv')) (req_sessionId request) = Some stats
           \<and> knowledgeBaseQueries stats
               = knowledgeBaseQueries
                   (get_or (sessionStatistics (svc_integration sv)) (req_sessionId request)
                      (defaultStatistics (req_sessionId request) now)) + 1
           \<and> messagesCount stats
               = messagesCount
                   (get_or (sessionStatistics (svc_integration sv)) (req_sessionId request)
                      (defaultStatistics (req_sessionId request) now)) + 1)"
proof -
  from processRequest_try_kb_disabled [OF off cls run pass] obtain reply h where
    sm: "sendMessage (cap_chat caps) now (svc_chat sv) kbDisabledMessage (req_sessionId request)
             = (Inr reply, h)"
    and c: "ir_chat response = Some reply"
    and t: "ir_requestType response = Some ''knowledge_base_query''"
    and k: "ir_knowledgeBase response = None"
    and h: "svc_chat sv' = h"
    and kb: "svc_knowledgeBase sv' = svc_knowledgeBase sv"
    and i: "svc_integration sv' =
               updateStatistics (svc_integration sv) now (req_sessionId request)
                 ''knowledge_base_query''"
    by blast
  have p: "processRequest caps now sv request = (response, sv')"
    by (simp add: processRequest_def run)
  have s: "\<exists>stats.
           map_of (sessionStatistics (svc_integration sv')) (req_sessionId request) = Some stats
           \<and> knowledgeBaseQueries stats
               = knowledgeBaseQueries
                   (get_or (sessionStatistics (svc_integration sv)) (req_sessionId request)
                      (defaultStatistics (req_sessionId request) now)) + 1
           \<and> messagesCount stats
               = messagesCount
                   (get_or (sessionStatistics (svc_integration sv)) (req_sessionId request)
                      (defaultStatistics (req_sessionId request) now)) + 1"
    unfolding i updateStatistics_kb by simp
  from sm c h have "\<exists>reply h.
           sendMessage (cap_chat caps) now (svc_chat sv) kbDisabledMessage (req_sessionId request)
             = (Inr reply, h)
           \<and> ir_chat response = Some reply \<and> svc_chat sv' = h"
    by blast
  with p t k kb s show ?thesis by (intro conjI)
qed

text \<open>
  On that path the knowledge base is not consulted: neither the embedding capability nor
  the content of the knowledge base has any influence on the response or on the rest of
  the state.
\<close>

lemma dispatch_kb_disabled_ignores_knowledge_base:
  assumes off: "\<not> knowledgeBase features"
  shows "dispatch (caps\<lparr> cap_embeddings := embedApi \<rparr>) now (sv\<lparr> svc_knowledgeBase := kb \<rparr>)
           request features ''knowledge_base_query'' response
         = (case dispatch caps now sv request features ''knowledge_base_query'' response of
              (res, sv') \<Rightarrow> (res, sv'\<lparr> svc_knowledgeBase := kb \<rparr>))"
  using off
  by (simp add: dispatch_def chat_into_def split: prod.splits sum.splits)

lemma processRequest_kb_disabled_ignores_knowledge_base:
  assumes off: "\<not> knowledgeBase (fst (getSessionFeatures (svc_integration sv) (req_sessionId request)))"
    and cls: "analyzeRequestType (req_message request) = ''knowledge_base_query''"
  shows "processRequest (caps\<lparr> cap_embeddings := embedApi \<rparr>) now
           (sv\<lparr> svc_knowledgeBase := kb \<rparr>) request
         = (case processRequest caps now sv request of
              (response, sv') \<Rightarrow> (response, sv'\<lparr> svc_knowledgeBase := kb \<rparr>))"
proof -
  have r: "route (caps\<lparr> cap_embeddings := embedApi \<rparr>) now (s\<lparr> svc_knowledgeBase := kb \<rparr>)
             request features response
           = (case route caps now s request features response of
                (res, s') \<Rightarrow> (res, s'\<lparr> svc_knowledgeBase := kb \<rparr>))"
    if "\<not> knowledgeBase features" for s features response
    using that cls
    by (simp add: route_def Let_def dispatch_kb_disabled_ignores_knowledge_base speech_def
        split: prod.splits sum.splits option.splits)
  have r2: "route (caps\<lparr> cap_embeddings := embedApi \<rparr>) now
              (sv\<lparr> svc_knowledgeBase := kb, svc_moderation := h \<rparr>) request features response
           = (case route caps now (sv\<lparr> svc_moderation := h \<rparr>) request features response of
                (res, s') \<Rightarrow> (res, s'\<lparr> svc_knowledgeBase := kb \<rparr>))"
    if "\<not> knowledgeBase features" for h features response
  proof -
    have c: "sv\<lparr> svc_knowledgeBase := kb, svc_moderation := h \<rparr>
               = (sv\<lparr> svc_moderation := h \<rparr>)\<lparr> svc_knowledgeBase := kb \<rparr>"
      by (cases sv) simp
    show ?thesis unfolding c by (rule r [OF that])
  qed
  have t: "processRequest_try (caps\<lparr> cap_embeddings := embedApi \<rparr>) now
             (sv\<lparr> svc_knowledgeBase := kb \<rparr>) request
           = (case processRequest_try caps now sv request of
                (res, sv') \<Rightarrow> (res, sv'\<lparr> svc_knowledgeBase := kb \<rparr>))"
    using off
    by (simp add: processRequest_try_def Let_def r r2 getSessionFeatures_def
        split: prod.splits sum.splits)
  show ?thesis
    by (simp add: processRequest_def t getSessionFeatures_def split: prod.splits sum.splits)
qed

text \<open>
  C1. The claim: for a session whose knowledgeBase feature is disabled, a message
  classified as knowledge_base_query produces the fixed "feature disabled" chat fallback
  and does not increment the session's \<open>knowledgeBaseQueries\<close> counter. The code at
  such a request (knowledge base switched off for session s1, message "What is an
  embedding?", a chat capability that answers "ok"): the fixed notice is passed to
  \<open>chatService.sendMessage\<close> as the user's message, so the chat of the response is the
  capability's reply and not the notice, and \<open>updateStatistics\<close> is called with the
  classified type, so the counter, absent before, is 1 afterwards.
\<close>

theorem kb_disabled_query_is_counted:
  "\<not> knowledgeBase (fst (getSessionFeatures (svc_integration kb_off_services) ''s1''))
   \<and> analyzeRequestType (req_message ex_request) = ''knowledge_base_query''
   \<and> map_of (sessionStatistics (svc_integration kb_off_services)) ''s1'' = None
   \<and> map_option knowledgeBaseQueries
        (map_of (sessionStatistics
                   (svc_integration (snd (processRequest ex_caps 7 kb_off_services ex_request))))
           ''s1'') = Some 1
   \<and> map_option cm_content (ir_chat (fst (processRequest ex_caps 7 kb_off_services ex_request)))
       = Some ''ok''
   \<and> ''ok'' \<noteq> kbDisabledMessage"
proof -
  from ex_try obtain response sv' where
    run: "processRequest_try ex_caps 7 kb_off_services ex_request = (Inr response, sv')"
    and c: "map_option cm_content (ir_chat response) = Some ''ok''"
    and q: "map_option knowledgeBaseQueries
           (map_of (sessionStatistics (svc_integration sv')) ''s1'') = Some 1"
    by blast
  have p: "processRequest ex_caps 7 kb_off_services ex_request = (response, sv')"
    by (simp add: processRequest_def run)
  have "''ok'' \<noteq> kbDisabledMessage" by (simp add: kbDisabledMessage_def)
  with p c q ex_before show ?thesis
    by (simp add: ex_features ex_request_def ex_request_type)
qed

subsection \<open>KnowledgeBaseService\<close>

lemma generateEmbedding_isl:
  "isl (generateEmbedding api now request) \<longleftrightarrow> isl (api (rq_text request))"
  by (simp add: generateEmbedding_def split: sum.splits prod.splits)

lemma generateEmbedding_Inr:
  "generateEmbedding api now request = Inr emb \<Longrightarrow>
     de_text emb = rq_text request
     \<and> md_chunkIndex (de_metadata emb) = nat_or (rq_chunkIndex request) 0
     \<and> md_filename (de_metadata emb) = str_or (rq_filename request) ''unknown''"
  by (auto simp: generateEmbedding_def split: sum.splits prod.splits)

lemma promise_all_isl: "isl (promise_all ps) \<longleftrightarrow> (\<exists>p \<in> set ps. isl p)"
  by (induction ps rule: promise_all.induct) (auto split: sum.splits)

lemma promise_all_Inr:
  "promise_all ps = Inr vs \<Longrightarrow> ps = map Inr vs"
  by (induction ps arbitrary: vs rule: promise_all.induct) (auto split: sum.splits)

lemma batch_isl_gen:
  "length batch = length ks \<Longrightarrow>
   (\<exists>p \<in> set (map (\<lambda>(text, index).
                     generateEmbedding api now
                       \<lparr> rq_text = text, rq_filename = fn,
                         rq_source = src, rq_chunkIndex = Some (i + index) \<rparr>)
                (zip batch ks)). isl p)
   \<longleftrightarrow> (\<exists>t \<in> set batch. isl (api t))"
  by (induction batch ks rule: list_induct2) (auto simp: generateEmbedding_isl)

lemma batch_Inr_gen:
  "length batch = length ks \<Longrightarrow>
   promise_all (map (\<lambda>(text, index).
                     generateEmbedding api now
                       \<lparr> rq_text = text, rq_filename = fn,
                         rq_source = src, rq_chunkIndex = Some (i + index) \<rparr>)
                (zip batch ks)) = Inr rs \<Longrightarrow>
   map de_text rs = batch
     \<and> map (\<lambda>e. md_chunkIndex (de_metadata e)) rs = map (\<lambda>k. i + k) ks"
proof (induction batch ks arbitrary: rs rule: list_induct2)
  case Nil
  then show ?case by simp
next
  case (Cons t ts k ks)
  let ?g = "generateEmbedding api now
              \<lparr> rq_text = t, rq_filename = fn, rq_source = src, rq_chunkIndex = Some (i + k) \<rparr>"
  let ?rest = "promise_all (map (\<lambda>(text, index).
                     generateEmbedding api now
                       \<lparr> rq_text = text, rq_filename = fn,
                         rq_source = src, rq_chunkIndex = Some (i + index) \<rparr>)
                (zip ts ks))"
  from Cons.prems obtain e es where g: "?g = Inr e" and r: "?rest = Inr es" and rs: "rs = e # es"
    by (cases ?g; cases ?rest) auto
  from generateEmbedding_Inr [OF g] have "de_text e = t" "md_chunkIndex (de_metadata e) = i + k"
    by (simp_all add: nat_or_def)
  with Cons.IH [OF r] rs show ?case by simp
qed

lemma batch_isl:
  "(\<exists>p \<in> set (map (\<lambda>(text, index).
                     generateEmbedding api now
                       \<lparr> rq_text = text, rq_filename = fn,
                         rq_source = src, rq_chunkIndex = Some (i + index) \<rparr>)
                (zip batch [0..<length batch])). isl p)
   \<longleftrightarrow> (\<exists>t \<in> set batch. isl (api t))"
  by (rule batch_isl_gen) simp

lemma batch_Inr:
  assumes "promise_all (map (\<lambda>(text, index).
                     generateEmbedding api now
                       \<lparr> rq_text = text, rq_filename = fn,
                         rq_source = src, rq_chunkIndex = Some (i + index) \<rparr>)
                (zip batch [0..<length batch])) = Inr rs"
  shows "map de_text rs = batch
     \<and> map (\<lambda>e. md_chunkIndex (de_metadata e)) rs = [i..<i + length batch]"
proof -
  have "length batch = length [0..<length batch]" by simp
  from batch_Inr_gen [OF this assms] show ?thesis
    by (simp add: map_add_upt add.commute)
qed

lemma drop_batch: "drop i texts = take batchSize (drop i texts) @ drop (i + batchSize) texts"
  by (metis add.commute append_take_drop_id drop_drop)

lemma embed_batches_fail:
  "\<exists>t \<in> set (drop i texts). isl (api t) \<Longrightarrow>
     isl (embed_batches api now metadata texts i embeddings)"
proof (induction api now metadata texts i embeddings rule: embed_batches.induct)
  case (1 api now metadata texts i embeddings)
  let ?batch = "take batchSize (drop i texts)"
  let ?promises = "map (\<lambda>(text, index).
                     generateEmbedding api now
                       \<lparr> rq_text = text, rq_filename = fst metadata,
                         rq_source = snd metadata, rq_chunkIndex = Some (i + index) \<rparr>)
                (zip ?batch [0..<length ?batch])"
  from "1.prems" have lt: "i < length texts" by (cases "i < length texts") auto
  show ?case
  proof (cases "promise_all ?promises")
    case (Inl e)
    with lt show ?thesis by (subst embed_batches.simps) (simp add: Let_def)
  next
    case (Inr batchResults)
    then have "\<not> isl (promise_all ?promises)" by simp
    then have "\<not> (\<exists>t \<in> set ?batch. isl (api t))"
      unfolding promise_all_isl batch_isl .
    with "1.prems" have "\<exists>t \<in> set (drop (i + batchSize) texts). isl (api t)"
      by (subst (asm) drop_batch) auto
    from "1.IH" [OF lt refl refl Inr this] lt Inr show ?thesis
      by (subst embed_batches.simps) (simp add: Let_def)
  qed
qed

lemma embed_batches_ok:
  "\<forall>t \<in> set (drop i texts). \<not> isl (api t) \<Longrightarrow>
     \<exists>rs. embed_batches api now metadata texts i embeddings = Inr (embeddings @ rs)
        \<and> map de_text rs = drop i texts
        \<and> map (\<lambda>e. md_chunkIndex (de_metadata e)) rs = [i..<length texts]"
proof (induction api now metadata texts i embeddings rule: embed_batches.induct)
  case (1 api now metadata texts i embeddings)
  let ?batch = "take batchSize (drop i texts)"
  let ?promises = "map (\<lambda>(text, index).
                     generateEmbedding api now
                       \<lparr> rq_text = text, rq_filename = fst metadata,
                         rq_source = snd metadata, rq_chunkIndex = Some (i + index) \<rparr>)
                (zip ?batch [0..<length ?batch])"
  show ?case
  proof (cases "i < length texts")
    case False
    then show ?thesis by (subst embed_batches.simps) simp
  next
    case lt: True
    from "1.prems" have okb: "\<not> (\<exists>t \<in> set ?batch. isl (api t))"
      by (subst (asm) drop_batch) auto
    then have "\<not> isl (promise_all ?promises)"
      unfolding promise_all_isl batch_isl .
    then obtain batchResults where pa: "promise_all ?promises = Inr batchResults"
      by (cases "promise_all ?promises") auto
    from batch_Inr [OF pa] have bt: "map de_text batchResults = ?batch"
      and bi: "map (\<lambda>e. md_chunkIndex (de_metadata e)) batchResults = [i..<i + length ?batch]"
      by blast+
    from "1.prems" have "\<forall>t \<in> set (drop (i + batchSize) texts). \<not> isl (api t)"
      by (subst (asm) drop_batch) auto
    from "1.IH" [OF lt refl refl pa this] obtain rs where
      r: "embed_batches api now metadata texts (i + batchSize) (embeddings @ batchResults)
            = Inr ((embeddings @ batchResults) @ rs)"
      and rt: "map de_text rs = drop (i + batchSize) texts"
      and ri: "map (\<lambda>e. md_chunkIndex (de_metadata e)) rs = [i + batchSize..<length texts]"
      by blast
    have e: "embed_batches api now metadata texts i embeddings
               = Inr (embeddings @ (batchResults @ rs))"
      using lt pa r by (subst embed_batches.simps) (simp add: Let_def)
    have t: "map de_text (batchResults @ rs) = drop i texts"
      using bt rt drop_batch [of i texts] by simp
    have lb: "i + length ?batch = min (i + batchSize) (length texts)"
      using lt by (simp add: min_def) arith
    have le: "i + length ?batch \<le> length texts" using lt by simp
    have "[i..<length texts] = [i..<i + length ?batch] @ [i + length ?batch..<length texts]"
      using upt_add_eq_append [of i "i + length ?batch" "length texts - (i + length ?batch)"] le
      by simp
    moreover have "[i + length ?batch..<length texts] = [i + batchSize..<length texts]"
      by (cases "i + batchSize \<le> length texts") (auto simp: lb min_def)
    ultimately have "map (\<lambda>e. md_chunkIndex (de_metadata e)) (batchResults @ rs) = [i..<length texts]"
      using bi ri by simp
    with e t show ?thesis by blast
  qed
qed

lemma generateMultipleEmbeddings_fail:
  "\<exists>t \<in> set texts. isl (api t) \<Longrightarrow> isl (generateMultipleEmbeddings api now texts metadata)"
  using embed_batches_fail [of 0 texts api now metadata "[]"]
  by (auto simp: generateMultipleEmbeddings_def split: sum.splits)

lemma generateMultipleEmbeddings_ok:
  assumes "\<forall>t \<in> set texts. \<not> isl (api t)"
  shows "\<exists>rs. generateMultipleEmbeddings api now texts metadata = Inr rs
        \<and> map de_text rs = texts
        \<and> map (\<lambda>e. md_chunkIndex (de_metadata e)) rs = [0..<length texts]"
  using embed_batches_ok [of 0 texts api now metadata "[]"] assms
  by (auto simp: generateMultipleEmbeddings_def)

lemma addDocument_fail:
  assumes "\<exists>chunk \<in> set (splitTextIntoChunks content 800 80). isl (api chunk)"
  shows "isl (fst (addDocument api now random kb filename content))
     \<and> snd (addDocument api now random kb filename content) = kb"
  using generateMultipleEmbeddings_fail [OF assms, of now "(Some filename, Some ''document_upload'')"]
  by (auto simp: addDocument_def Let_def split: sum.splits)

lemma addDocument_ok:
  assumes "\<forall>chunk \<in> set (splitTextIntoChunks content 800 80). \<not> isl (api chunk)"
  shows "\<exists>embeddings.
       addDocument api now random kb filename content =
         (Inr \<lparr> ar_documentId = generateDocumentId now random filename,
                ar_chunkCount = length (splitTextIntoChunks content 800 80),
                ar_tokenCount =
                  fold (\<lambda>emb sum. sum + md_tokenCount (de_metadata emb)) embeddings 0 \<rparr>,
          kb\<lparr> documents :=
                AList.update (generateDocumentId now random filename) embeddings (documents kb),
              documentMetadata :=
                AList.update (generateDocumentId now random filename)
                  \<lparr> dm_filename = filename, dm_uploadDate = now,
                    dm_chunkCount = length (splitTextIntoChunks content 800 80) \<rparr>
                  (documentMetadata kb) \<rparr>)
       \<and> map de_text embeddings = splitTextIntoChunks content 800 80
       \<and> map (\<lambda>e. md_chunkIndex (de_metadata e)) embeddings
           = [0..<length (splitTextIntoChunks content 800 80)]"
proof -
  from generateMultipleEmbeddings_ok [OF assms, of now "(Some filename, Some ''document_upload'')"]
  obtain rs where g: "generateMultipleEmbeddings api now (splitTextIntoChunks content 800 80)
                        (Some filename, Some ''document_upload'') = Inr rs"
    and t: "map de_text rs = splitTextIntoChunks content 800 80"
    and i: "map (\<lambda>e. md_chunkIndex (de_metadata e)) rs
              = [0..<length (splitTextIntoChunks content 800 80)]"
    by blast
  have n: "(\<lambda>emb sum. sum + nat_or (Some (md_tokenCount (de_metadata emb))) 0)
         = (\<lambda>emb sum. sum + md_tokenCount (de_metadata emb))"
    by (simp add: nat_or_def fun_eq_iff)
  show ?thesis
    by (rule exI [of _ rs]) (simp add: addDocument_def Let_def g t i n)
qed

lemma ex_chunks: "splitTextIntoChunks ''Hello world. Bye!'' 800 80 = [''Hello world Bye'']"
  by code_simp

lemma ex_document_id: "generateDocumentId 5 ''r'' ''a.txt'' = ''doc_5_a.txt_r''"
  by code_simp

lemma generateEmbedding_embeds:
  "generateEmbedding api now
     \<lparr> rq_text = t, rq_filename = fn, rq_source = src, rq_chunkIndex = Some j \<rparr> = Inr emb
   \<Longrightarrow> embeds_chunk api now (fn, src) t j emb"
  by (auto simp: generateEmbedding_def embeds_chunk_def nat_or_def split: sum.splits prod.splits)

lemma batch_embeds:
  assumes pa: "promise_all (map (\<lambda>(text, index).
                     generateEmbedding api now
                       \<lparr> rq_text = text, rq_filename = fn,
                         rq_source = src, rq_chunkIndex = Some (i + index) \<rparr>)
                (zip batch [0..<length batch])) = Inr rs"
  shows "length rs = length batch
     \<and> (\<forall>k < length batch. embeds_chunk api now (fn, src) (batch ! k) (i + k) (rs ! k))"
proof -
  let ?f = "\<lambda>(text, index).
                     generateEmbedding api now
                       \<lparr> rq_text = text, rq_filename = fn,
                         rq_source = src, rq_chunkIndex = Some (i + index) \<rparr>"
  let ?zs = "zip batch [0..<length batch]"
  from promise_all_Inr [OF pa] have m: "map ?f ?zs = map Inr rs" .
  then have "length (map ?f ?zs) = length (map Inr rs)" by simp
  then have len: "length rs = length batch" by simp
  have "embeds_chunk api now (fn, src) (batch ! k) (i + k) (rs ! k)" if k: "k < length batch" for k
  proof -
    from m have "map ?f ?zs ! k = map Inr rs ! k" by simp
    with k len have "generateEmbedding api now
                       \<lparr> rq_text = batch ! k, rq_filename = fn,
                         rq_source = src, rq_chunkIndex = Some (i + k) \<rparr> = Inr (rs ! k)"
      by simp
    then show ?thesis by (rule generateEmbedding_embeds)
  qed
  with len show ?thesis by blast
qed

lemma embed_batches_embeds:
  "\<forall>t \<in> set (drop i texts). \<not> isl (api t) \<Longrightarrow>
     \<exists>rs. embed_batches api now metadata texts i embeddings = Inr (embeddings @ rs)
        \<and> length rs = length texts - i
        \<and> (\<forall>j < length rs. embeds_chunk api now metadata (texts ! (i + j)) (i + j) (rs ! j))"
proof (induction api now metadata texts i embeddings rule: embed_batches.induct)
  case (1 api now metadata texts i embeddings)
  let ?batch = "take batchSize (drop i texts)"
  let ?promises = "map (\<lambda>(text, index).
                     generateEmbedding api now
                       \<lparr> rq_text = text, rq_filename = fst metadata,
                         rq_source = snd metadata, rq_chunkIndex = Some (i + index) \<rparr>)
                (zip ?batch [0..<length ?batch])"
  show ?case
  proof (cases "i < length texts")
    case False
    then show ?thesis by (subst embed_batches.simps) simp
  next
    case lt: True
    from "1.prems" have okb: "\<not> (\<exists>t \<in> set ?batch. isl (api t))"
      by (subst (asm) drop_batch) auto
    then have "\<not> isl (promise_all ?promises)"
      unfolding promise_all_isl batch_isl .
    then obtain batchResults where pa: "promise_all ?promises = Inr batchResults"
      by (cases "promise_all ?promises") auto
    from batch_embeds [OF pa] have bl: "length batchResults = length ?batch"
      and be: "\<forall>k < length ?batch.
                 embeds_chunk api now (fst metadata, snd metadata) (?batch ! k) (i + k) (batchResults ! k)"
      by blast+
    from "1.prems" have "\<forall>t \<in> set (drop (i + batchSize) texts). \<not> isl (api t)"
      by (subst (asm) drop_batch) auto
    from "1.IH" [OF lt refl refl pa this] obtain rs where
      r: "embed_batches api now metadata texts (i + batchSize) (embeddings @ batchResults)
            = Inr ((embeddings @ batchResults) @ rs)"
      and rl: "length rs = length texts - (i + batchSize)"
      and re: "\<forall>j < length rs.
                 embeds_chunk api now metadata (texts ! (i + batchSize + j)) (i + batchSize + j) (rs ! j)"
      by blast
    have e: "embed_batches api now metadata texts i embeddings
               = Inr (embeddings @ (batchResults @ rs))"
      using lt pa r by (subst embed_batches.simps) (simp add: Let_def)
    have lb: "length ?batch = min batchSize (length texts - i)" by simp
    have l: "length (batchResults @ rs) = length texts - i"
      using bl rl lb lt by (simp add: min_def)
    have n: "embeds_chunk api now metadata (texts ! (i + j)) (i + j) ((batchResults @ rs) ! j)"
      if j: "j < length (batchResults @ rs)" for j
    proof (cases "j < length batchResults")
      case True
      with bl have jb: "j < length ?batch" by simp
      then have tj: "?batch ! j = texts ! (i + j)" using lt by (simp add: nth_drop)
      from be jb have "embeds_chunk api now (fst metadata, snd metadata) (?batch ! j) (i + j)
                         (batchResults ! j)" by blast
      then have "embeds_chunk api now metadata (texts ! (i + j)) (i + j) (batchResults ! j)"
        unfolding tj by simp
      with True show ?thesis by (simp add: nth_append)
    next
      case False
      with j have jr: "j - length batchResults < length rs" by simp
      then have "0 < length texts - (i + batchSize)" using rl by simp
      then have full: "length batchResults = batchSize" using bl lb by (simp add: min_def)
      from re jr have "embeds_chunk api now metadata
           (texts ! (i + batchSize + (j - length batchResults)))
           (i + batchSize + (j - length batchResults)) (rs ! (j - length batchResults))"
        by blast
      moreover from False full have "i + batchSize + (j - length batchResults) = i + j" by simp
      ultimately show ?thesis using False by (simp add: nth_append)
    qed
    from e l n show ?thesis by blast
  qed
qed

lemma generateMultipleEmbeddings_embeds:
  assumes "\<forall>t \<in> set texts. \<not> isl (api t)"
  shows "\<exists>rs. generateMultipleEmbeddings api now texts metadata = Inr rs
        \<and> length rs = length texts
        \<and> (\<forall>j < length texts. embeds_chunk api now metadata (texts ! j) j (rs ! j))"
  using embed_batches_embeds [of 0 texts api now metadata "[]"] assms
  by (auto simp: generateMultipleEmbeddings_def)


lemma addDocument_indexes:
  assumes "\<forall>chunk \<in> set (splitTextIntoChunks content 800 80). \<not> isl (api chunk)"
  shows "\<exists>embeddings.
       addDocument api now random kb filename content =
         (Inr \<lparr> ar_documentId = generateDocumentId now random filename,
                ar_chunkCount = length (splitTextIntoChunks content 800 80),
                ar_tokenCount =
                  fold (\<lambda>emb sum. sum + md_tokenCount (de_metadata emb)) embeddings 0 \<rparr>,
          kb\<lparr> documents :=
                AList.update (generateDocumentId now random filename) embeddings (documents kb),
              documentMetadata :=
                AList.update (generateDocumentId now random filename)
                  \<lparr> dm_filename = filename, dm_uploadDate = now,
                    dm_chunkCount = length (splitTextIntoChunks content 800 80) \<rparr>
                  (documentMetadata kb) \<rparr>)
       \<and> length embeddings = length (splitTextIntoChunks content 800 80)
       \<and> (\<forall>i < length (splitTextIntoChunks content 800 80).
             embeds_chunk api now (Some filename, Some ''document_upload'')
               (splitTextIntoChunks content 800 80 ! i) i (embeddings ! i))"
proof -
  from generateMultipleEmbeddings_embeds [OF assms, of now "(Some filename, Some ''document_upload'')"]
  obtain rs where g: "generateMultipleEmbeddings api now (splitTextIntoChunks content 800 80)
                        (Some filename, Some ''document_upload'') = Inr rs"
    and l: "length rs = length (splitTextIntoChunks content 800 80)"
    and e: "\<forall>i < length (splitTextIntoChunks content 800 80).
             embeds_chunk api now (Some filename, Some ''document_upload'')
               (splitTextIntoChunks content 800 80 ! i) i (rs ! i)"
    by blast
  have n: "(\<lambda>emb sum. sum + nat_or (Some (md_tokenCount (de_metadata emb))) 0)
         = (\<lambda>emb sum. sum + md_tokenCount (de_metadata emb))"
    by (simp add: nat_or_def fun_eq_iff)
  have "addDocument api now random kb filename content =
         (Inr \<lparr> ar_documentId = generateDocumentId now random filename,
                ar_chunkCount = length (splitTextIntoChunks content 800 80),
                ar_tokenCount =
                  fold (\<lambda>emb sum. sum + md_tokenCount (de_metadata emb)) rs 0 \<rparr>,
          kb\<lparr> documents :=
                AList.update (generateDocumentId now random filename) rs (documents kb),
              documentMetadata :=
                AList.update (generateDocumentId now random filename)
                  \<lparr> dm_filename = filename, dm_uploadDate = now,
                    dm_chunkCount = length (splitTextIntoChunks content 800 80) \<rparr>
                  (documentMetadata kb) \<rparr>)"
    by (simp add: addDocument_def Let_def g n)
  with l e show ?thesis by blast
qed

lemma embeds_chunk_upload:
  "embeds_chunk api now (Some filename, Some ''document_upload'') chunk i emb
     \<longleftrightarrow> (\<exists>vector tokens.
            api chunk = Inr (vector, tokens)
            \<and> emb = \<lparr> de_text = chunk, de_embedding = vector,
                      de_metadata = \<lparr>
                        md_filename = (if filename = [] then ''unknown'' else filename),
                        md_source = ''document_upload'',
                        md_chunkIndex = i, md_timestamp = now,
                        md_tokenCount = (case tokens of None \<Rightarrow> 0 | Some n \<Rightarrow> n) \<rparr> \<rparr>)"
proof -
  have "nat_or tokens 0 = (case tokens of None \<Rightarrow> 0 | Some n \<Rightarrow> n)" for tokens
    by (simp add: nat_or_def split: option.splits)
  then show ?thesis by (simp add: embeds_chunk_def str_or_def)
qed

text \<open>
  C3. \<open>addDocument\<close> is atomic with respect to the knowledge-base state: if the
  embedding of any chunk fails, \<open>addDocument\<close> fails and the document store and the
  metadata store are left as they were (as after every failure); when every chunk can be
  embedded it succeeds, and on success the whole document is indexed: under the new
  document id the store holds one embedding per chunk, in order, each with the chunk's
  text, the vector and the token count the capability returned for that chunk, and the
  chunk's index; the metadata store holds the file name, the date and the chunk count;
  nothing else in either store changes; and the result reports the id, the chunk count
  and the sum of the token counts.
\<close>

theorem addDocument_atomic:
  fixes api now random kb filename content
  defines "chunks \<equiv> splitTextIntoChunks content 800 80"
    and "result \<equiv> addDocument api now random kb filename content"
    and "documentId \<equiv> generateDocumentId now random filename"
  shows
  "((\<exists>chunk \<in> set chunks. isl (api chunk)) \<longrightarrow> isl (fst result) \<and> snd result = kb)
   \<and> (isl (fst result) \<longrightarrow> snd result = kb)
   \<and> ((\<forall>chunk \<in> set chunks. \<not> isl (api chunk)) \<longrightarrow> \<not> isl (fst result))
   \<and> (\<not> isl (fst result) \<longrightarrow>
        (\<exists>embeddings.
           map_of (documents (snd result)) documentId = Some embeddings
           \<and> map de_text embeddings = chunks
           \<and> map (\<lambda>e. md_chunkIndex (de_metadata e)) embeddings = [0..<length chunks]
           \<and> map_of (documentMetadata (snd result)) documentId
               = Some \<lparr> dm_filename = filename, dm_uploadDate = now,
                        dm_chunkCount = length chunks \<rparr>
           \<and> fst result
               = Inr \<lparr> ar_documentId = documentId, ar_chunkCount = length chunks,
                        ar_tokenCount =
                          fold (\<lambda>emb sum. sum + md_tokenCount (de_metadata emb)) embeddings 0 \<rparr>
           \<and> length embeddings = length chunks
           \<and> (\<forall>i < length chunks.
                 \<exists>vector tokens.
                   api (chunks ! i) = Inr (vector, tokens)
                   \<and> embeddings ! i =
                       \<lparr> de_text = chunks ! i, de_embedding = vector,
                         de_metadata = \<lparr>
                           md_filename = (if filename = [] then ''unknown'' else filename),
                           md_source = ''document_upload'',
                           md_chunkIndex = i, md_timestamp = now,
                           md_tokenCount = (case tokens of None \<Rightarrow> 0 | Some n \<Rightarrow> n) \<rparr> \<rparr>)
           \<and> snd result =
               kb\<lparr> documents := AList.update documentId embeddings (documents kb),
                   documentMetadata :=
                     AList.update documentId
                       \<lparr> dm_filename = filename, dm_uploadDate = now,
                         dm_chunkCount = length chunks \<rparr>
                       (documentMetadata kb) \<rparr>
           \<and> (\<forall>other. other \<noteq> documentId \<longrightarrow>
                 map_of (documents (snd result)) other = map_of (documents kb) other
                 \<and> map_of (documentMetadata (snd result)) other
                     = map_of (documentMetadata kb) other)))"
proof (cases "\<exists>chunk \<in> set chunks. isl (api chunk)")
  case True
  then have "\<exists>chunk \<in> set (splitTextIntoChunks content 800 80). isl (api chunk)"
    by (simp add: chunks_def)
  from addDocument_fail [OF this, of now random kb filename] True show ?thesis
    unfolding result_def by blast
next
  case False
  then have ok: "\<forall>chunk \<in> set (splitTextIntoChunks content 800 80). \<not> isl (api chunk)"
    by (simp add: chunks_def)
  from addDocument_indexes [OF ok, of now random kb filename] obtain embeddings where
    a: "result =
         (Inr \<lparr> ar_documentId = documentId, ar_chunkCount = length chunks,
                ar_tokenCount =
                  fold (\<lambda>emb sum. sum + md_tokenCount (de_metadata emb)) embeddings 0 \<rparr>,
          kb\<lparr> documents := AList.update documentId embeddings (documents kb),
              documentMetadata :=
                AList.update documentId
                  \<lparr> dm_filename = filename, dm_uploadDate = now,
                    dm_chunkCount = length chunks \<rparr>
                  (documentMetadata kb) \<rparr>)"
    and l: "length embeddings = length chunks"
    and e: "\<forall>i < length chunks.
             embeds_chunk api now (Some filename, Some ''document_upload'')
               (chunks ! i) i (embeddings ! i)"
    unfolding result_def chunks_def documentId_def by blast
  have e': "\<forall>i < length chunks.
                 \<exists>vector tokens.
                   api (chunks ! i) = Inr (vector, tokens)
                   \<and> embeddings ! i =
                       \<lparr> de_text = chunks ! i, de_embedding = vector,
                         de_metadata = \<lparr>
                           md_filename = (if filename = [] then ''unknown'' else filename),
                           md_source = ''document_upload'',
                           md_chunkIndex = i, md_timestamp = now,
                           md_tokenCount = (case tokens of None \<Rightarrow> 0 | Some n \<Rightarrow> n) \<rparr> \<rparr>"
    using e unfolding embeds_chunk_upload .
  have t: "map de_text embeddings = chunks"
  proof (rule nth_equalityI)
    show "length (map de_text embeddings) = length chunks" using l by simp
    fix i assume "i < length (map de_text embeddings)"
    with l have i: "i < length chunks" by simp
    with e' obtain vector tokens where "embeddings ! i =
                       \<lparr> de_text = chunks ! i, de_embedding = vector,
                         de_metadata = \<lparr>
                           md_filename = (if filename = [] then ''unknown'' else filename),
                           md_source = ''document_upload'',
                           md_chunkIndex = i, md_timestamp = now,
                           md_tokenCount = (case tokens of None \<Rightarrow> 0 | Some n \<Rightarrow> n) \<rparr> \<rparr>"
      by blast
    then have "de_text (embeddings ! i) = chunks ! i" by simp
    with i l show "map de_text embeddings ! i = chunks ! i" by simp
  qed
  have x: "map (\<lambda>e. md_chunkIndex (de_metadata e)) embeddings = [0..<length chunks]"
  proof (rule nth_equalityI)
    show "length (map (\<lambda>e. md_chunkIndex (de_metadata e)) embeddings) = length [0..<length chunks]"
      using l by simp
    fix i assume "i < length (map (\<lambda>e. md_chunkIndex (de_metadata e)) embeddings)"
    with l have i: "i < length chunks" by simp
    with e' obtain vector tokens where "embeddings ! i =
                       \<lparr> de_text = chunks ! i, de_embedding = vector,
                         de_metadata = \<lparr>
                           md_filename = (if filename = [] then ''unknown'' else filename),
                           md_source = ''document_upload'',
                           md_chunkIndex = i, md_timestamp = now,
                           md_tokenCount = (case tokens of None \<Rightarrow> 0 | Some n \<Rightarrow> n) \<rparr> \<rparr>"
      by blast
    then have "md_chunkIndex (de_metadata (embeddings ! i)) = i" by simp
    with i l show "map (\<lambda>e. md_chunkIndex (de_metadata e)) embeddings ! i = [0..<length chunks] ! i"
      by simp
  qed
  have f: "fst result
         = Inr \<lparr> ar_documentId = documentId, ar_chunkCount = length chunks,
                ar_tokenCount =
                  fold (\<lambda>emb sum. sum + md_tokenCount (de_metadata emb)) embeddings 0 \<rparr>"
    unfolding a by (rule fst_conv)
  have s: "snd result =
               kb\<lparr> documents := AList.update documentId embeddings (documents kb),
                   documentMetadata :=
                     AList.update documentId
                       \<lparr> dm_filename = filename, dm_uploadDate = now,
                         dm_chunkCount = length chunks \<rparr>
                       (documentMetadata kb) \<rparr>"
    unfolding a by (rule snd_conv)
  have d: "map_of (documents (snd result)) documentId = Some embeddings"
    unfolding s by (simp add: update_conv')
  have m: "map_of (documentMetadata (snd result)) documentId
               = Some \<lparr> dm_filename = filename, dm_uploadDate = now,
                        dm_chunkCount = length chunks \<rparr>"
    unfolding s by (simp add: update_conv')
  have o: "\<forall>other. other \<noteq> documentId \<longrightarrow>
                 map_of (documents (snd result)) other = map_of (documents kb) other
                 \<and> map_of (documentMetadata (snd result)) other
                     = map_of (documentMetadata kb) other"
    unfolding s by (simp add: update_conv')
  have ni: "\<not> isl (fst result)" unfolding f by simp
  have "\<exists>embeddings.
           map_of (documents (snd result)) documentId = Some embeddings
           \<and> map de_text embeddings = chunks
           \<and> map (\<lambda>e. md_chunkIndex (de_metadata e)) embeddings = [0..<length chunks]
           \<and> map_of (documentMetadata (snd result)) documentId
               = Some \<lparr> dm_filename = filename, dm_uploadDate = now,
                        dm_chunkCount = length chunks \<rparr>
           \<and> fst result
               = Inr \<lparr> ar_documentId = documentId, ar_chunkCount = length chunks,
                        ar_tokenCount =
                          fold (\<lambda>emb sum. sum + md_tokenCount (de_metadata emb)) embeddings 0 \<rparr>
           \<and> length embeddings = length chunks
           \<and> (\<forall>i < length chunks.
                 \<exists>vector tokens.
                   api (chunks ! i) = Inr (vector, tokens)
                   \<and> embeddings ! i =
                       \<lparr> de_text = chunks ! i, de_embedding = vector,
                         de_metadata = \<lparr>
                           md_filename = (if filename = [] then ''unknown'' else filename),
                           md_source = ''document_upload'',
                           md_chunkIndex = i, md_timestamp = now,
                           md_tokenCount = (case tokens of None \<Rightarrow> 0 | Some n \<Rightarrow> n) \<rparr> \<rparr>)
           \<and> snd result =
               kb\<lparr> documents := AList.update documentId embeddings (documents kb),
                   documentMetadata :=
                     AList.update documentId
                       \<lparr> dm_filename = filename, dm_uploadDate = now,
                         dm_chunkCount = length chunks \<rparr>
                       (documentMetadata kb) \<rparr>
           \<and> (\<forall>other. other \<noteq> documentId \<longrightarrow>
                 map_of (documents (snd result)) other = map_of (documents kb) other
                 \<and> map_of (documentMetadata (snd result)) other
                     = map_of (documentMetadata kb) other)"
    by (rule exI [of _ embeddings]) (intro conjI d t x m f l e' s o)
  with False ni show ?thesis by blast
qed

theorem addDocument_atomic_witness:
  "splitTextIntoChunks ''Hello world. Bye!'' 800 80 = [''Hello world Bye'']
   \<and> isl (fst (addDocument failing_embeddings_api 5 ''r'' empty_kb ''a.txt'' ''Hello world. Bye!''))
   \<and> snd (addDocument failing_embeddings_api 5 ''r'' empty_kb ''a.txt'' ''Hello world. Bye!'')
       = empty_kb
   \<and> \<not> isl (fst (addDocument ok_embeddings_api 5 ''r'' empty_kb ''a.txt'' ''Hello world. Bye!''))
   \<and> documents (snd (addDocument ok_embeddings_api 5 ''r'' empty_kb ''a.txt'' ''Hello world. Bye!''))
       = [(''doc_5_a.txt_r'',
           [\<lparr> de_text = ''Hello world Bye'', de_embedding = [1, 0],
              de_metadata = \<lparr> md_filename = ''a.txt'', md_source = ''document_upload'',
                              md_chunkIndex = 0, md_timestamp = 5, md_tokenCount = 3 \<rparr> \<rparr>])]"
proof -
  note bad = addDocument_atomic [where content = "''Hello world. Bye!''"
      and api = failing_embeddings_api and now = 5 and random = "''r''" and kb = empty_kb
      and filename = "''a.txt''"]
  note good = addDocument_atomic [where content = "''Hello world. Bye!''"
      and api = ok_embeddings_api and now = 5 and random = "''r''" and kb = empty_kb
      and filename = "''a.txt''"]
  have f: "\<exists>chunk \<in> set (splitTextIntoChunks ''Hello world. Bye!'' 800 80).
             isl (failing_embeddings_api chunk)"
    by (simp add: ex_chunks failing_embeddings_api_def)
  have o: "\<forall>chunk \<in> set (splitTextIntoChunks ''Hello world. Bye!'' 800 80).
             \<not> isl (ok_embeddings_api chunk)"
    by (simp add: ok_embeddings_api_def)
  from bad f have b: "isl (fst (addDocument failing_embeddings_api 5 ''r'' empty_kb ''a.txt'' ''Hello world. Bye!''))
   \<and> snd (addDocument failing_embeddings_api 5 ''r'' empty_kb ''a.txt'' ''Hello world. Bye!'')
       = empty_kb"
    by blast
  from good o have n: "\<not> isl (fst (addDocument ok_embeddings_api 5 ''r'' empty_kb ''a.txt'' ''Hello world. Bye!''))"
    by blast
  with good obtain embeddings where
    l: "length embeddings = length (splitTextIntoChunks ''Hello world. Bye!'' 800 80)"
    and e: "\<forall>i < length (splitTextIntoChunks ''Hello world. Bye!'' 800 80).
                 \<exists>vector tokens.
                   ok_embeddings_api (splitTextIntoChunks ''Hello world. Bye!'' 800 80 ! i)
                     = Inr (vector, tokens)
                   \<and> embeddings ! i =
                       \<lparr> de_text = splitTextIntoChunks ''Hello world. Bye!'' 800 80 ! i,
                         de_embedding = vector,
                         de_metadata = \<lparr>
                           md_filename = (if ''a.txt'' = [] then ''unknown'' else ''a.txt''),
                           md_source = ''document_upload'',
                           md_chunkIndex = i, md_timestamp = 5,
                           md_tokenCount = (case tokens of None \<Rightarrow> 0 | Some n \<Rightarrow> n) \<rparr> \<rparr>"
    and s: "snd (addDocument ok_embeddings_api 5 ''r'' empty_kb ''a.txt'' ''Hello world. Bye!'') =
               empty_kb\<lparr> documents :=
                     AList.update (generateDocumentId 5 ''r'' ''a.txt'') embeddings (documents empty_kb),
                   documentMetadata :=
                     AList.update (generateDocumentId 5 ''r'' ''a.txt'')
                       \<lparr> dm_filename = ''a.txt'', dm_uploadDate = 5,
                         dm_chunkCount = length (splitTextIntoChunks ''Hello world. Bye!'' 800 80) \<rparr>
                       (documentMetadata empty_kb) \<rparr>"
    by blast
  from l have l1: "length embeddings = 1" by (simp add: ex_chunks)
  from e have "embeddings ! 0 =
           \<lparr> de_text = ''Hello world Bye'', de_embedding = [1, 0],
              de_metadata = \<lparr> md_filename = ''a.txt'', md_source = ''document_upload'',
                              md_chunkIndex = 0, md_timestamp = 5, md_tokenCount = 3 \<rparr> \<rparr>"
    by (simp add: ex_chunks ok_embeddings_api_def)
  with l1 have "embeddings =
           [\<lparr> de_text = ''Hello world Bye'', de_embedding = [1, 0],
              de_metadata = \<lparr> md_filename = ''a.txt'', md_source = ''document_upload'',
                              md_chunkIndex = 0, md_timestamp = 5, md_tokenCount = 3 \<rparr> \<rparr>]"
    by (cases embeddings) auto
  with s have "documents (snd (addDocument ok_embeddings_api 5 ''r'' empty_kb ''a.txt'' ''Hello world. Bye!''))
       = [(''doc_5_a.txt_r'',
           [\<lparr> de_text = ''Hello world Bye'', de_embedding = [1, 0],
              de_metadata = \<lparr> md_filename = ''a.txt'', md_source = ''document_upload'',
                              md_chunkIndex = 0, md_timestamp = 5, md_tokenCount = 3 \<rparr> \<rparr>])]"
    by (simp add: ex_document_id empty_kb_def)
  with b n ex_chunks show ?thesis by blast
qed

lemma blank_pieces:
  assumes "\<forall>c \<in> set content. isSpace c \<or> isTerminator c"
  shows "\<forall>p \<in> set (split_terminators content). trim p = []"
proof
  fix p assume p: "p \<in> set (split_terminators content)"
  have "set p \<subseteq> set (concat (split_terminators content))" using p by auto
  also have "\<dots> = {c \<in> set content. \<not> isTerminator c}"
    by (simp add: concat_split_terminators)
  finally have "\<forall>c \<in> set p. isSpace c" using assms by auto
  then have "dropWhile isSpace p = []" by simp
  then show "trim p = []" by (simp only: trim_def dropWhile.simps rev.simps)
qed

lemma blank_no_chunks:
  assumes "\<forall>c \<in> set content. isSpace c \<or> isTerminator c"
  shows "splitTextIntoChunks content maxChunkSize overlapSize = []"
proof -
  from blank_pieces [OF assms]
  have "filter (\<lambda>s. length (trim s) > 0) (split_terminators content) = []"
    by (simp add: filter_empty_conv)
  then show ?thesis by (simp add: splitTextIntoChunks_def trim_def)
qed

lemma addDocument_isl:
  "isl (fst (addDocument api now random kb filename content))
     \<longleftrightarrow> (\<exists>chunk \<in> set (splitTextIntoChunks content 800 80). isl (api chunk))"
proof (cases "\<exists>chunk \<in> set (splitTextIntoChunks content 800 80). isl (api chunk)")
  case True
  with addDocument_fail [OF True, of now random kb filename] show ?thesis by blast
next
  case False
  then have "\<forall>chunk \<in> set (splitTextIntoChunks content 800 80). \<not> isl (api chunk)" by blast
  from addDocument_ok [OF this, of now random kb filename] obtain r k where
    "addDocument api now random kb filename content = (Inr r, k)" by blast
  with False show ?thesis by simp
qed

lemma addDocument_no_chunks:
  assumes "splitTextIntoChunks content 800 80 = []"
  shows "addDocument api now random kb filename content =
     (Inr \<lparr> ar_documentId = generateDocumentId now random filename,
            ar_chunkCount = 0, ar_tokenCount = 0 \<rparr>,
      kb\<lparr> documents :=
            AList.update (generateDocumentId now random filename) [] (documents kb),
          documentMetadata :=
            AList.update (generateDocumentId now random filename)
              \<lparr> dm_filename = filename, dm_uploadDate = now, dm_chunkCount = 0 \<rparr>
              (documentMetadata kb) \<rparr>)"
proof -
  have "embed_batches api now (Some filename, Some ''document_upload'') [] 0 [] = Inr []"
    by (subst embed_batches.simps) simp
  then show ?thesis
    by (simp add: addDocument_def assms generateMultipleEmbeddings_def Let_def)
qed

text \<open>
  C2, as the code has it. \<open>addDocument\<close> has no check of its own for zero chunks: it
  fails exactly when the embedding of some chunk fails. When chunking yields zero chunks,
  as for content made of white space and sentence terminators only, no embedding is
  requested and \<open>addDocument\<close> succeeds: it returns chunkCount 0 and tokenCount 0 and
  stores a document with no chunks.
\<close>

theorem addDocument_zero_chunks:
  "(isl (fst (addDocument api now random kb filename content))
      \<longleftrightarrow> (\<exists>chunk \<in> set (splitTextIntoChunks content 800 80). isl (api chunk)))
   \<and> (splitTextIntoChunks content 800 80 = [] \<longrightarrow>
        addDocument api now random kb filename content =
          (Inr \<lparr> ar_documentId = generateDocumentId now random filename,
                 ar_chunkCount = 0, ar_tokenCount = 0 \<rparr>,
           kb\<lparr> documents :=
                 AList.update (generateDocumentId now random filename) [] (documents kb),
               documentMetadata :=
                 AList.update (generateDocumentId now random filename)
                   \<lparr> dm_filename = filename, dm_uploadDate = now, dm_chunkCount = 0 \<rparr>
                   (documentMetadata kb) \<rparr>))
   \<and> ((\<forall>c \<in> set content. isSpace c \<or> isTerminator c) \<longrightarrow>
        splitTextIntoChunks content 800 80 = [])"
  using addDocument_isl [of api now random kb filename content]
    addDocument_no_chunks [of content api now random kb filename]
    blank_no_chunks [of content 800 80]
  by blast

theorem addDocument_zero_chunks_witness:
  "list_all (\<lambda>c. isSpace c \<or> isTerminator c) '' . ''
   \<and> splitTextIntoChunks '' . '' 800 80 = []
   \<and> addDocument failing_embeddings_api 5 ''r'' empty_kb ''a.txt'' '' . '' =
       (Inr \<lparr> ar_documentId = ''doc_5_a.txt_r'', ar_chunkCount = 0, ar_tokenCount = 0 \<rparr>,
        \<lparr> documents = [(''doc_5_a.txt_r'', [])],
          documentMetadata =
            [(''doc_5_a.txt_r'',
              \<lparr> dm_filename = ''a.txt'', dm_uploadDate = 5, dm_chunkCount = 0 \<rparr>)] \<rparr>)"
proof -
  note z = addDocument_zero_chunks [of failing_embeddings_api 5 "''r''" empty_kb "''a.txt''" "'' . ''"]
  have b: "\<forall>c \<in> set '' . ''. isSpace c \<or> isTerminator c"
    by (simp add: isSpace_def isTerminator_def)
  with z have n: "splitTextIntoChunks '' . '' 800 80 = []" by blast
  with z have "addDocument failing_embeddings_api 5 ''r'' empty_kb ''a.txt'' '' . '' =
          (Inr \<lparr> ar_documentId = generateDocumentId 5 ''r'' ''a.txt'',
                 ar_chunkCount = 0, ar_tokenCount = 0 \<rparr>,
           empty_kb\<lparr> documents :=
                 AList.update (generateDocumentId 5 ''r'' ''a.txt'') [] (documents empty_kb),
               documentMetadata :=
                 AList.update (generateDocumentId 5 ''r'' ''a.txt'')
                   \<lparr> dm_filename = ''a.txt'', dm_uploadDate = 5, dm_chunkCount = 0 \<rparr>
                   (documentMetadata empty_kb) \<rparr>)"
    by blast
  then have "addDocument failing_embeddings_api 5 ''r'' empty_kb ''a.txt'' '' . '' =
       (Inr \<lparr> ar_documentId = ''doc_5_a.txt_r'', ar_chunkCount = 0, ar_tokenCount = 0 \<rparr>,
        \<lparr> documents = [(''doc_5_a.txt_r'', [])],
          documentMetadata =
            [(''doc_5_a.txt_r'',
              \<lparr> dm_filename = ''a.txt'', dm_uploadDate = 5, dm_chunkCount = 0 \<rparr>)] \<rparr>)"
    by (simp add: ex_document_id empty_kb_def)
  with b n show ?thesis by (simp add: list_all_iff)
qed

lemma ex_empty_document_id: "generateDocumentId 5 ''r'' ''empty.txt'' = ''doc_5_empty.txt_r''"
  by code_simp

lemma ex_empty_chunks: "splitTextIntoChunks [] 800 80 = []"
  by code_simp

text \<open>
  The claim as it was stated, that \<open>addDocument\<close> fails whenever chunking yields zero
  chunks, fails on the empty content, even with an embedding capability that always
  throws.
\<close>

theorem addDocument_accepts_empty_content:
  "splitTextIntoChunks [] 800 80 = []
   \<and> fst (addDocument failing_embeddings_api 5 ''r'' empty_kb ''empty.txt'' [])
       = Inr \<lparr> ar_documentId = ''doc_5_empty.txt_r'', ar_chunkCount = 0, ar_tokenCount = 0 \<rparr>"
  using addDocument_no_chunks [OF ex_empty_chunks, of failing_embeddings_api 5 "''r''" empty_kb
      "''empty.txt''"]
  by (simp add: ex_empty_chunks ex_empty_document_id)

lemma query_no_chunks:
  assumes "concat (map snd (documents kb)) = []"
  shows "query embedApi chatApi kb q =
     (case embedApi (q_question q) of
        Inl e \<Rightarrow> Inl (Error (''Knowledge base query failed: ''
                             @ ''Query embedding generation failed: '' @ message_of e))
      | Inr v \<Rightarrow> Inr noDocumentsResponse)"
  using assms
  by (simp add: query_def generateQueryEmbedding_def kb_failed_def Let_def
      split: sum.splits prod.splits)

text \<open>
  C4, as the code has it. The question is embedded before the store is looked at. On a
  knowledge base with zero documents, for every question whose embedding call succeeds,
  \<open>query\<close> returns the fixed "no documents yet" answer with \<open>hasContext = false\<close>,
  \<open>confidence = 0\<close> and no sources; when the embedding call throws, \<open>query\<close> throws
  "Knowledge base query failed" around the capability's message.
\<close>

theorem query_empty_knowledge_base:
  assumes "documents kb = []"
  shows "(\<not> isl (embedApi (q_question q)) \<longrightarrow>
            query embedApi chatApi kb q = Inr noDocumentsResponse)
     \<and> (\<forall>e. embedApi (q_question q) = Inl e \<longrightarrow>
            query embedApi chatApi kb q
              = Inl (Error (''Knowledge base query failed: ''
                            @ ''Query embedding generation failed: '' @ message_of e)))
     \<and> kb_hasContext noDocumentsResponse = False
     \<and> kb_confidence noDocumentsResponse = 0
     \<and> kb_sources noDocumentsResponse = []
     \<and> kb_answer noDocumentsResponse = ''I don't have any documents in my knowledge base yet. Please upload some documents first, and then I'll be able to answer questions based on their content.''"
proof -
  from assms have "concat (map snd (documents kb)) = []" by simp
  from query_no_chunks [OF this, of embedApi chatApi q] show ?thesis
    by (auto simp: noDocumentsResponse_def split: sum.splits)
qed

theorem query_empty_knowledge_base_witness:
  "documents empty_kb = []
   \<and> \<not> isl (ok_embeddings_api (q_question ex_query))
   \<and> query ok_embeddings_api ok_chat_api empty_kb ex_query = Inr noDocumentsResponse
   \<and> kb_hasContext noDocumentsResponse = False \<and> kb_confidence noDocumentsResponse = 0"
proof -
  have d: "documents empty_kb = []" by (simp add: empty_kb_def)
  have o: "\<not> isl (ok_embeddings_api (q_question ex_query))"
    by (simp add: ok_embeddings_api_def)
  from query_empty_knowledge_base [OF d, of ok_embeddings_api ex_query ok_chat_api] o d
  show ?thesis by blast
qed

text \<open>
  The claim as it was stated, that \<open>query\<close> on an empty knowledge base always returns
  the fixed answer, fails when the embedding capability is down.
\<close>

theorem query_empty_kb_embedding_failure:
  "documents empty_kb = []
   \<and> query failing_embeddings_api ok_chat_api empty_kb ex_query
       = Inl (Error ''Knowledge base query failed: Query embedding generation failed: connection refused'')"
  using query_no_chunks [of empty_kb failing_embeddings_api ok_chat_api ex_query]
  by (simp add: empty_kb_def failing_embeddings_api_def)

end
